theory Spec2Isabelle
  imports Main "HOL-Library.Sublist" "HOL-Library.Char_ord" "HOL-Library.AList"
begin

section \<open>Python strings\<close>

text \<open>
  A Python \<^verbatim>\<open>str\<close> is a sequence of Unicode code points. It is represented by the list
  of the bytes of its UTF-8 encoding, a lone surrogate (which a file name can hold) by
  the three bytes that the \<^verbatim>\<open>surrogatepass\<close> error handler gives it. The encoding is
  one-to-one, it maps the concatenation of two strings to the concatenation of their
  encodings, and no encoding of a code point begins inside the encoding of another one.
  So an ASCII character is one byte, and \<^verbatim>\<open>==\<close>, \<^verbatim>\<open>+\<close>, \<^verbatim>\<open>s.startswith(p)\<close>,
  \<^verbatim>\<open>s.endswith(p)\<close> and \<^verbatim>\<open>sub in s\<close> on strings are the operations on the byte lists that
  follow.
\<close>

definition startswith :: "string \<Rightarrow> string \<Rightarrow> bool" where
  "startswith s p = (take (length p) s = p)"

definition endswith :: "string \<Rightarrow> string \<Rightarrow> bool" where
  "endswith s p = (length p \<le> length s \<and> drop (length s - length p) s = p)"

fun contains :: "string \<Rightarrow> string \<Rightarrow> bool" where
  "contains sub [] = (sub = [])"
| "contains sub (c # cs) = (startswith (c # cs) sub \<or> contains sub cs)"

text \<open>\<^verbatim>\<open>s.split(sep)\<close> and \<^verbatim>\<open>sep.join(parts)\<close> for a single character \<open>sep\<close>.\<close>

fun split_at :: "char \<Rightarrow> string \<Rightarrow> string list" where
  "split_at sep [] = [[]]"
| "split_at sep (c # cs) =
     (if c = sep then [] # split_at sep cs
      else (case split_at sep cs of
              [] \<Rightarrow> [[c]]
            | part # parts \<Rightarrow> (c # part) # parts))"

fun join_with :: "char \<Rightarrow> string list \<Rightarrow> string" where
  "join_with sep [] = []"
| "join_with sep [part] = part"
| "join_with sep (part # parts) = part @ sep # join_with sep parts"

text \<open>
  \<^verbatim>\<open>len(s)\<close> is the number of code points of \<open>s\<close>: the bytes of the encoding that do not
  continue a code point.
\<close>

definition utf8_continuation :: "char \<Rightarrow> bool" where
  "utf8_continuation c = (CHR 0x80 \<le> c \<and> c \<le> CHR 0xBF)"

definition str_len :: "string \<Rightarrow> int" where
  "str_len s = int (length (filter (\<lambda>c. \<not> utf8_continuation c) s))"

text \<open>
  \<^verbatim>\<open>s.lower()\<close> is the lower-case mapping of the Unicode tables the Python build has; it
  maps letters outside ASCII too, some of them to ASCII letters. The tables are no part
  of the add-on: the mapping is a parameter of the model, written \<open>lower\<close>, and what
  is proved holds for every mapping. \<open>ascii_lower\<close> is what \<^verbatim>\<open>s.lower()\<close> gives for a
  string that is ASCII throughout.
\<close>

definition lower_char :: "char \<Rightarrow> char" where
  "lower_char c =
     (case map_of (zip ''ABCDEFGHIJKLMNOPQRSTUVWXYZ'' ''abcdefghijklmnopqrstuvwxyz'') c of
        Some d \<Rightarrow> d
      | None \<Rightarrow> c)"

definition ascii_lower :: "string \<Rightarrow> string" where
  "ascii_lower s = map lower_char s"

section \<open>\<^verbatim>\<open>__init__.py\<close>: the export file name of a group\<close>

text \<open>
  \<^verbatim>\<open>re.sub(r'[^a-zA-Z0-9_-]', '', string)\<close>: the character class of the pattern, and the
  left-to-right scan that replaces every match (one character outside the class) by the
  empty string. A character outside ASCII is outside the class, and so is each of the
  bytes that encode it.
\<close>

definition in_class :: "char \<Rightarrow> bool" where
  "in_class c = ((CHR ''a'' \<le> c \<and> c \<le> CHR ''z'') \<or> (CHR ''A'' \<le> c \<and> c \<le> CHR ''Z'')
     \<or> (CHR ''0'' \<le> c \<and> c \<le> CHR ''9'') \<or> c = CHR ''_'' \<or> c = CHR ''-'')"

fun clean_group_name_to_be_filename :: "string \<Rightarrow> string" where
  "clean_group_name_to_be_filename [] = []"
| "clean_group_name_to_be_filename (c # cs) =
     (if \<not> in_class c then clean_group_name_to_be_filename cs
      else c # clean_group_name_to_be_filename cs)"

text \<open>The alphabet the sanitised name is promised to stay in, written out.\<close>

definition filename_alphabet :: "char set" where
  "filename_alphabet =
     set ''abcdefghijklmnopqrstuvwxyzABCDEFGHIJKLMNOPQRSTUVWXYZ0123456789_-''"

section \<open>Exceptions\<close>

text \<open>
  The exceptions the modelled code can raise; \<open>csv_Error\<close> is \<^verbatim>\<open>csv.Error\<close>. A function
  that can raise returns \<open>py_error + 'a\<close>, with \<open>Inl\<close> for the exception.
\<close>

datatype py_error =
    KeyError string | TypeError | AttributeError | ValueError | UnicodeEncodeError | csv_Error

section \<open>The \<^verbatim>\<open>os\<close> module and the directory tree\<close>

text \<open>
  The functions of \<^verbatim>\<open>os.path\<close> the add-on calls depend on the platform, so they are a
  parameter of the model. \<open>path_relpath os p start\<close> is the value of
  \<^verbatim>\<open>os.path.relpath(p, start)\<close>; the crawler calls it only on a path built below the root.
\<close>

record os_module =
  path_join :: "string \<Rightarrow> string \<Rightarrow> string"
  path_basename :: "string \<Rightarrow> string"
  path_relpath :: "string \<Rightarrow> string \<Rightarrow> string"
  path_splitext :: "string \<Rightarrow> string \<times> string"

text \<open>
  What \<^verbatim>\<open>os.listdir\<close> and \<^verbatim>\<open>os.path.isdir\<close> report: a directory lists its entries in
  the order \<^verbatim>\<open>os.listdir\<close> returns them, and an entry is a directory (\<open>Dir\<close>, with its
  own listing) or anything else (\<open>File\<close>). The tree is finite and every directory can be
  listed.
\<close>

datatype fsnode = File string | Dir string "fsnode list"

section \<open>\<^verbatim>\<open>anim_file_crawler.py\<close>: the data classes\<close>

record AnimFileEntryMetadata =
  filename :: string
  group :: string
  loop :: bool
  root_motion :: bool
  tags :: string
  orig_path :: string

record AnimFileEntry =
  full_path :: string
  relative_path :: string
  base_name :: string
  entry_should_loop :: bool

record AnimFileCrawler =
  root_path :: string
  crawler_loop :: bool
  filename_must_have :: "string option"
  filename_must_not_have :: "string option"

section \<open>\<^verbatim>\<open>AnimFileCrawler\<close>\<close>

text \<open>\<^verbatim>\<open>AnimFileCrawler(root_path)\<close>, every other argument at its default.\<close>

definition AnimFileCrawler_init :: "string \<Rightarrow> AnimFileCrawler" where
  "AnimFileCrawler_init root =
     \<lparr>root_path = root, crawler_loop = False,
      filename_must_have = None, filename_must_not_have = None\<rparr>"

definition should_loop :: "os_module \<Rightarrow> (string \<Rightarrow> string) \<Rightarrow> string \<Rightarrow> bool" where
  "should_loop os lower filepath =
     (let basename = lower (path_basename os filepath) in
      if contains ''_to_'' basename then False
      else if contains ''jump'' basename then False
      else if contains ''walk'' basename then True
      else if contains ''sprint'' basename then True
      else if contains ''shuffle'' basename then True
      else if contains ''turn'' basename then True
      else if contains ''idle'' basename then True
      else False)"

text \<open>The \<^verbatim>\<open>include\<close> flag of a file whose lowered name ends with \<^verbatim>\<open>.fbx\<close>.\<close>

definition include_flag :: "(string \<Rightarrow> string) \<Rightarrow> AnimFileCrawler \<Rightarrow> string \<Rightarrow> bool" where
  "include_flag lower self filename_lower =
     (let include = True;
          include = (case filename_must_have self of
                       None \<Rightarrow> include
                     | Some must_have \<Rightarrow>
                         if \<not> contains (lower must_have) filename_lower then False else include);
          include = (case filename_must_not_have self of
                       None \<Rightarrow> include
                     | Some must_not_have \<Rightarrow>
                         if contains (lower must_not_have) filename_lower then False else include)
      in include)"

text \<open>
  \<open>crawl_folders_for_anims os lower self folder_path path_contents out_entries\<close> is the
  loop over \<open>path_contents\<close>, the listing of \<open>folder_path\<close>; it returns \<open>out_entries\<close> as
  the call leaves it. \<open>crawl_item\<close> is the loop body for one name of the listing.
\<close>

fun crawl_folders_for_anims ::
    "os_module \<Rightarrow> (string \<Rightarrow> string) \<Rightarrow> AnimFileCrawler \<Rightarrow> string \<Rightarrow> fsnode list \<Rightarrow>
     AnimFileEntry list \<Rightarrow> AnimFileEntry list"
  and crawl_item ::
    "os_module \<Rightarrow> (string \<Rightarrow> string) \<Rightarrow> AnimFileCrawler \<Rightarrow> string \<Rightarrow> fsnode \<Rightarrow>
     AnimFileEntry list \<Rightarrow> AnimFileEntry list"
where
  "crawl_folders_for_anims os lower self folder_path [] out_entries = out_entries"
| "crawl_folders_for_anims os lower self folder_path (item # path_contents) out_entries =
     crawl_folders_for_anims os lower self folder_path path_contents
       (crawl_item os lower self folder_path item out_entries)"
| "crawl_item os lower self folder_path (Dir name contents) out_entries =
     crawl_folders_for_anims os lower self (path_join os folder_path name) contents out_entries"
| "crawl_item os lower self folder_path (File name) out_entries =
     (let filename_lower = lower name;
          full = path_join os folder_path name
      in if endswith filename_lower ''.fbx'' then
           (if include_flag lower self filename_lower then
              out_entries @
                [\<lparr>full_path = full,
                  relative_path = path_relpath os full (root_path self),
                  base_name = path_basename os full,
                  entry_should_loop = should_loop os lower full\<rparr>]
            else out_entries)
         else out_entries)"

section \<open>Text files and the \<^verbatim>\<open>csv\<close> module\<close>

text \<open>
  The content of a text file is the string its bytes decode to in the encoding of the
  platform. The file is taken to exist and to decode, and the encoding to decode what
  it has encoded to the text that was written, as UTF-8 does. \<^verbatim>\<open>open(name, 'r')\<close> reads
  with universal newlines: every \<^verbatim>\<open>\r\n\<close> and every other \<^verbatim>\<open>\r\<close> of the file, also inside a
  quoted cell, reaches the program as \<^verbatim>\<open>\n\<close>; iterating over the file object gives the
  lines of that text, each with the \<^verbatim>\<open>\n\<close> that ends it.
\<close>

fun universal_newlines :: "string \<Rightarrow> string" where
  "universal_newlines [] = []"
| "universal_newlines [c] = (if c = CHR 0x0D then [CHR 0x0A] else [c])"
| "universal_newlines (c # d # cs) =
     (if c = CHR 0x0D \<and> d = CHR 0x0A then CHR 0x0A # universal_newlines cs
      else if c = CHR 0x0D then CHR 0x0A # universal_newlines (d # cs)
      else c # universal_newlines (d # cs))"

fun text_lines :: "string \<Rightarrow> string list" where
  "text_lines [] = []"
| "text_lines (c # cs) =
     (if c = CHR 0x0A then [c] # text_lines cs
      else (case text_lines cs of
              [] \<Rightarrow> [[c]]
            | line # lines \<Rightarrow> (c # line) # lines))"

definition open_r :: "string \<Rightarrow> string list" where
  "open_r file_text = text_lines (universal_newlines file_text)"

text \<open>
  \<^verbatim>\<open>open(name, 'w', newline='')\<close> writes the text as it is, once the encoding of the
  platform has encoded it; \<^verbatim>\<open>write\<close> raises \<^verbatim>\<open>UnicodeEncodeError\<close> for a text the encoding
  does not have. Which texts it has is a parameter, \<open>can_encode\<close>. \<open>out_file\<close> is the text
  written so far. \<open>utf8_can_encode\<close> is the parameter for UTF-8, which has every text
  without a lone surrogate (the bytes \<^verbatim>\<open>ED A0\<close> to \<^verbatim>\<open>ED BF\<close> begin one).
\<close>

definition file_write :: "(string \<Rightarrow> bool) \<Rightarrow> string \<Rightarrow> string \<Rightarrow> py_error + string" where
  "file_write can_encode out_file text =
     (if can_encode text then Inr (out_file @ text) else Inl UnicodeEncodeError)"

fun utf8_can_encode :: "string \<Rightarrow> bool" where
  "utf8_can_encode [] = True"
| "utf8_can_encode [c] = True"
| "utf8_can_encode (c # d # cs) =
     (if c = CHR 0xED \<and> CHR 0xA0 \<le> d \<and> d \<le> CHR 0xBF then False
      else utf8_can_encode (d # cs))"

text \<open>
  The \<^verbatim>\<open>excel\<close> dialect, which the add-on leaves in place: the delimiter is the comma, the
  quote character the double quote, a quote inside a quoted cell is doubled, a line
  written ends with \<^verbatim>\<open>\r\n\<close>, and a cell is quoted only where it has to be.
\<close>

definition delimiter :: char where
  "delimiter = CHR 0x2C"

definition quotechar :: char where
  "quotechar = CHR 0x22"

definition lineterminator :: string where
  "lineterminator = [CHR 0x0D, CHR 0x0A]"

text \<open>
  \<^verbatim>\<open>csv.writer(f).writerow(row)\<close> for a row of strings, as \<^verbatim>\<open>Modules/_csv.c\<close> of CPython
  3.11 builds the line it writes: \<open>join_append\<close> is the text of one cell, quoted when it
  holds the delimiter, the quote character or a character of the line terminator; a row
  of one empty cell is written as two quote characters.
\<close>

definition join_append :: "string \<Rightarrow> string" where
  "join_append field_text =
     (let quoted = list_ex (\<lambda>c. c = delimiter \<or> c = quotechar \<or> c \<in> set lineterminator)
                     field_text;
          copied = concat (map (\<lambda>c. if c = quotechar then [quotechar, c] else [c]) field_text)
      in if quoted then [quotechar] @ copied @ [quotechar] else copied)"

definition csv_writerow :: "string list \<Rightarrow> string" where
  "csv_writerow row =
     (let line = join_with delimiter (map join_append row);
          line = (if length row > 0 \<and> line = [] then [quotechar, quotechar] else line)
      in line @ lineterminator)"

text \<open>
  \<^verbatim>\<open>csv.reader(f)\<close>, as \<^verbatim>\<open>Modules/_csv.c\<close> of CPython 3.11 implements it, for the \<^verbatim>\<open>excel\<close>
  dialect. The reader object holds the cells of the record it is reading, the state of
  the parser, the cell it is reading and the number of characters of that cell, which
  is \<open>str_len\<close> of the cell: a character counts when its first byte is added. \<open>field_limit\<close> is
  \<^verbatim>\<open>csv.field_size_limit()\<close>, 131072 unless some code of the process has set another
  one. \<open>parse_process_char\<close> takes a character of the line, or \<open>None\<close> at the end of the
  line.
\<close>

datatype ParserState =
    START_RECORD | START_FIELD | IN_FIELD | IN_QUOTED_FIELD | QUOTE_IN_QUOTED_FIELD | EAT_CRNL

record ReaderObj =
  reader_fields :: "string list"
  reader_state :: ParserState
  reader_field :: string
  reader_field_len :: int

definition parse_reset :: "ReaderObj" where
  "parse_reset =
     \<lparr>reader_fields = [], reader_state = START_RECORD, reader_field = [], reader_field_len = 0\<rparr>"

definition parse_save_field :: "ReaderObj \<Rightarrow> ReaderObj" where
  "parse_save_field self =
     self\<lparr>reader_fields := reader_fields self @ [reader_field self],
          reader_field := [], reader_field_len := 0\<rparr>"

definition parse_add_char :: "int \<Rightarrow> ReaderObj \<Rightarrow> char \<Rightarrow> py_error + ReaderObj" where
  "parse_add_char field_limit self c =
     (if utf8_continuation c then Inr (self\<lparr>reader_field := reader_field self @ [c]\<rparr>)
      else if reader_field_len self \<ge> field_limit then Inl csv_Error
      else Inr (self\<lparr>reader_field := reader_field self @ [c],
                     reader_field_len := reader_field_len self + 1\<rparr>))"

definition end_of_record :: "char option \<Rightarrow> bool" where
  "end_of_record c = (c = Some (CHR 0x0A) \<or> c = Some (CHR 0x0D) \<or> c = None)"

definition after_record :: "char option \<Rightarrow> ParserState" where
  "after_record c = (if c = None then START_RECORD else EAT_CRNL)"

definition parse_start_field :: "int \<Rightarrow> ReaderObj \<Rightarrow> char option \<Rightarrow> py_error + ReaderObj" where
  "parse_start_field field_limit self c =
     (if end_of_record c then Inr ((parse_save_field self)\<lparr>reader_state := after_record c\<rparr>)
      else if c = Some quotechar then Inr (self\<lparr>reader_state := IN_QUOTED_FIELD\<rparr>)
      else if c = Some delimiter then Inr (parse_save_field self)
      else (case parse_add_char field_limit self (the c) of
              Inl e \<Rightarrow> Inl e
            | Inr self \<Rightarrow> Inr (self\<lparr>reader_state := IN_FIELD\<rparr>)))"

definition parse_process_char :: "int \<Rightarrow> ReaderObj \<Rightarrow> char option \<Rightarrow> py_error + ReaderObj" where
  "parse_process_char field_limit self c =
     (case reader_state self of
        START_RECORD \<Rightarrow>
          (if c = None then Inr self
           else if c = Some (CHR 0x0A) \<or> c = Some (CHR 0x0D)
           then Inr (self\<lparr>reader_state := EAT_CRNL\<rparr>)
           else parse_start_field field_limit (self\<lparr>reader_state := START_FIELD\<rparr>) c)
      | START_FIELD \<Rightarrow> parse_start_field field_limit self c
      | IN_FIELD \<Rightarrow>
          (if end_of_record c
           then Inr ((parse_save_field self)\<lparr>reader_state := after_record c\<rparr>)
           else if c = Some delimiter
           then Inr ((parse_save_field self)\<lparr>reader_state := START_FIELD\<rparr>)
           else parse_add_char field_limit self (the c))
      | IN_QUOTED_FIELD \<Rightarrow>
          (if c = None then Inr self
           else if c = Some quotechar then Inr (self\<lparr>reader_state := QUOTE_IN_QUOTED_FIELD\<rparr>)
           else parse_add_char field_limit self (the c))
      | QUOTE_IN_QUOTED_FIELD \<Rightarrow>
          (if c = Some quotechar then
             (case parse_add_char field_limit self (the c) of
                Inl e \<Rightarrow> Inl e
              | Inr self \<Rightarrow> Inr (self\<lparr>reader_state := IN_QUOTED_FIELD\<rparr>))
           else if c = Some delimiter
           then Inr ((parse_save_field self)\<lparr>reader_state := START_FIELD\<rparr>)
           else if end_of_record c
           then Inr ((parse_save_field self)\<lparr>reader_state := after_record c\<rparr>)
           else (case parse_add_char field_limit self (the c) of
                   Inl e \<Rightarrow> Inl e
                 | Inr self \<Rightarrow> Inr (self\<lparr>reader_state := IN_FIELD\<rparr>)))
      | EAT_CRNL \<Rightarrow>
          (if c = Some (CHR 0x0A) \<or> c = Some (CHR 0x0D) then Inr self
           else if c = None then Inr (self\<lparr>reader_state := START_RECORD\<rparr>)
           else Inl csv_Error))"

text \<open>The characters of one line, then the end of the line.\<close>

fun parse_line :: "int \<Rightarrow> ReaderObj \<Rightarrow> string \<Rightarrow> py_error + ReaderObj" where
  "parse_line field_limit self [] = parse_process_char field_limit self None"
| "parse_line field_limit self (c # line) =
     (case parse_process_char field_limit self (Some c) of
        Inl e \<Rightarrow> Inl e
      | Inr self \<Rightarrow> parse_line field_limit self line)"

text \<open>
  Iterating over the reader: a record is complete when a line leaves the parser at the
  start of a record, and the reader starts afresh for the next one; at the end of the
  input a cell that was begun is taken as it is. The result is the list of the records
  read, and the exception that ended the iteration, if one did.
\<close>

fun reader_iter ::
    "int \<Rightarrow> ReaderObj \<Rightarrow> string list \<Rightarrow> string list list \<times> py_error option" where
  "reader_iter field_limit self [] =
     (if reader_field_len self \<noteq> 0 \<or> reader_state self = IN_QUOTED_FIELD
      then ([reader_fields (parse_save_field self)], None)
      else ([], None))"
| "reader_iter field_limit self (lineobj # input_iter) =
     (case parse_line field_limit self lineobj of
        Inl e \<Rightarrow> ([], Some e)
      | Inr self \<Rightarrow>
          if reader_state self = START_RECORD
          then (case reader_iter field_limit parse_reset input_iter of
                  (records, raised) \<Rightarrow> (reader_fields self # records, raised))
          else reader_iter field_limit self input_iter)"

definition csv_reader :: "int \<Rightarrow> string list \<Rightarrow> string list list \<times> py_error option" where
  "csv_reader field_limit f = reader_iter field_limit parse_reset f"

text \<open>
  \<^verbatim>\<open>csv.DictReader(f)\<close>, from \<^verbatim>\<open>csv.py\<close>. The first record gives the field names. Every other
  record that is not empty gives a dictionary: \<^verbatim>\<open>dict(zip(fieldnames, row))\<close>, and then
  \<^verbatim>\<open>None\<close> under each field name the row is too short for, so that a later column wins
  over an earlier one of the same name. A value of such a dictionary is a cell, or
  \<^verbatim>\<open>None\<close>; the cells a row has beyond the field names go under the key \<^verbatim>\<open>None\<close>, which
  no lookup by a string finds, and are left out. Iterating gives the dictionaries, and
  the exception of the reader that ended the iteration, if one did.
\<close>

type_synonym csv_row = "string \<rightharpoonup> string option"

fun dict_row :: "string list \<Rightarrow> string list \<Rightarrow> csv_row" where
  "dict_row [] row = Map.empty"
| "dict_row (key # fieldnames) [] = [key \<mapsto> None] ++ dict_row fieldnames []"
| "dict_row (key # fieldnames) (cell # row) = [key \<mapsto> Some cell] ++ dict_row fieldnames row"

definition DictReader :: "int \<Rightarrow> string list \<Rightarrow> csv_row list \<times> py_error option" where
  "DictReader field_limit f =
     (case csv_reader field_limit f of
        ([], raised) \<Rightarrow> ([], raised)
      | (fieldnames # records, raised) \<Rightarrow>
          (map (dict_row fieldnames) (filter (\<lambda>row. row \<noteq> []) records), raised))"

section \<open>\<^verbatim>\<open>AnimFileEntryMetadataProcessor\<close>\<close>

text \<open>\<^verbatim>\<open>row[key]\<close>\<close>

definition getitem :: "csv_row \<Rightarrow> string \<Rightarrow> py_error + string option" where
  "getitem row key = (case row key of None \<Rightarrow> Inl (KeyError key) | Some cell \<Rightarrow> Inr cell)"

text \<open>
  \<^verbatim>\<open>load_metadata_list\<close> passes the values of a row to the constructor of
  \<^verbatim>\<open>AnimFileEntryMetadata\<close>, which does not check them against the annotations of the
  fields: where the row is shorter than the header, a field annotated \<^verbatim>\<open>str\<close> holds
  \<^verbatim>\<open>None\<close>. The record \<open>AnimFileEntryMetadata\<close> is the object with a string in
  every such field, as the rest of the add-on reads it;
  \<open>AnimFileEntryMetadata_loaded\<close> is the object as \<^verbatim>\<open>load_metadata_list\<close> builds it.
\<close>

record AnimFileEntryMetadata_loaded =
  loaded_filename :: "string option"
  loaded_group :: "string option"
  loaded_loop :: bool
  loaded_root_motion :: bool
  loaded_tags :: "string option"
  loaded_orig_path :: "string option"

text \<open>The constructor call of the loop body: the keyword arguments are evaluated in order.\<close>

definition metadata_of_row :: "csv_row \<Rightarrow> py_error + AnimFileEntryMetadata_loaded" where
  "metadata_of_row row =
     (case getitem row ''filename'' of Inl e \<Rightarrow> Inl e | Inr c_filename \<Rightarrow>
      case getitem row ''group'' of Inl e \<Rightarrow> Inl e | Inr c_group \<Rightarrow>
      case getitem row ''loop'' of Inl e \<Rightarrow> Inl e | Inr c_loop \<Rightarrow>
      case getitem row ''root_motion'' of Inl e \<Rightarrow> Inl e | Inr c_root_motion \<Rightarrow>
      case getitem row ''tags'' of Inl e \<Rightarrow> Inl e | Inr c_tags \<Rightarrow>
      case getitem row ''orig_path'' of Inl e \<Rightarrow> Inl e | Inr c_orig_path \<Rightarrow>
        Inr \<lparr>loaded_filename = c_filename, loaded_group = c_group,
             loaded_loop = (c_loop = Some ''TRUE''),
             loaded_root_motion = (c_root_motion = Some ''TRUE''),
             loaded_tags = c_tags, loaded_orig_path = c_orig_path\<rparr>)"

text \<open>The loop over the rows of the reader; \<open>acc\<close> is the local \<^verbatim>\<open>list\<close>.\<close>

fun load_rows ::
    "csv_row list \<Rightarrow> bool \<Rightarrow> AnimFileEntryMetadata_loaded list \<Rightarrow>
     py_error + AnimFileEntryMetadata_loaded list"
where
  "load_rows [] ignore_root_motion acc = Inr acc"
| "load_rows (row # rows) ignore_root_motion acc =
     (case metadata_of_row row of
        Inl e \<Rightarrow> Inl e
      | Inr metadata \<Rightarrow>
          if \<not> ignore_root_motion \<or> \<not> loaded_root_motion metadata
          then load_rows rows ignore_root_motion (acc @ [metadata])
          else load_rows rows ignore_root_motion acc)"

text \<open>
  \<open>csv_file\<close> is the content of the file named \<^verbatim>\<open>csv_filename\<close>. The rows are read one
  by one as the loop asks for them, so an exception of the reader comes after the rows
  before it have gone through the loop body.
\<close>

definition load_metadata_list ::
    "int \<Rightarrow> string \<Rightarrow> bool \<Rightarrow> py_error + AnimFileEntryMetadata_loaded list" where
  "load_metadata_list field_limit csv_file ignore_root_motion =
     (let in_file = open_r csv_file
      in case DictReader field_limit in_file of
           (rows, raised) \<Rightarrow>
             (case load_rows rows ignore_root_motion [] of
                Inl e \<Rightarrow> Inl e
              | Inr acc \<Rightarrow> (case raised of None \<Rightarrow> Inr acc | Some e \<Rightarrow> Inl e)))"

text \<open>
  \<^verbatim>\<open>dataclasses.asdict(entry)\<close>, with the field values as Python values, and the text
  \<^verbatim>\<open>str(value)\<close> the \<^verbatim>\<open>csv\<close> writer puts into a cell.
\<close>

datatype py_value = Str string | Bool bool

definition asdict :: "AnimFileEntryMetadata \<Rightarrow> (string \<times> py_value) list" where
  "asdict entry =
     [(''filename'', Str (filename entry)), (''group'', Str (group entry)),
      (''loop'', Bool (loop entry)), (''root_motion'', Bool (root_motion entry)),
      (''tags'', Str (tags entry)), (''orig_path'', Str (orig_path entry))]"

fun str_of :: "py_value \<Rightarrow> string" where
  "str_of (Str s) = s"
| "str_of (Bool True) = ''True''"
| "str_of (Bool False) = ''False''"

text \<open>
  \<^verbatim>\<open>csv.DictWriter(f, fieldnames)\<close>, from \<^verbatim>\<open>csv.py\<close>. \<^verbatim>\<open>_dict_to_list\<close> raises \<^verbatim>\<open>ValueError\<close>
  for a key outside \<open>fieldnames\<close> and takes the empty string for a field name the
  dictionary lacks; \<^verbatim>\<open>writerow\<close> writes the line of the values; \<^verbatim>\<open>writeheader\<close> writes
  the field names.
\<close>

definition dict_to_list :: "string list \<Rightarrow> (string \<times> py_value) list \<Rightarrow> py_error + py_value list" where
  "dict_to_list fieldnames rowdict =
     (if list_ex (\<lambda>k. k \<notin> set fieldnames) (map fst rowdict) then Inl ValueError
      else Inr (map (\<lambda>key. case map_of rowdict key of None \<Rightarrow> Str [] | Some v \<Rightarrow> v)
                  fieldnames))"

definition DictWriter_writerow ::
    "(string \<Rightarrow> bool) \<Rightarrow> string list \<Rightarrow> (string \<times> py_value) list \<Rightarrow> string \<Rightarrow> py_error + string"
where
  "DictWriter_writerow can_encode fieldnames rowdict out_file =
     (case dict_to_list fieldnames rowdict of
        Inl e \<Rightarrow> Inl e
      | Inr row \<Rightarrow> file_write can_encode out_file (csv_writerow (map str_of row)))"

definition DictWriter_writeheader ::
    "(string \<Rightarrow> bool) \<Rightarrow> string list \<Rightarrow> string \<Rightarrow> py_error + string" where
  "DictWriter_writeheader can_encode fieldnames out_file =
     (let header = zip fieldnames (map Str fieldnames)
      in DictWriter_writerow can_encode fieldnames header out_file)"

text \<open>The loop over \<open>entry_list\<close>.\<close>

fun save_rows ::
    "(string \<Rightarrow> bool) \<Rightarrow> string list \<Rightarrow> AnimFileEntryMetadata list \<Rightarrow> string \<Rightarrow>
     py_error + string"
where
  "save_rows can_encode fieldnames [] out_file = Inr out_file"
| "save_rows can_encode fieldnames (entry # entry_list) out_file =
     (case DictWriter_writerow can_encode fieldnames (asdict entry) out_file of
        Inl e \<Rightarrow> Inl e
      | Inr out_file \<Rightarrow> save_rows can_encode fieldnames entry_list out_file)"

text \<open>
  \<^verbatim>\<open>save_metadata_list\<close> returns the content of the file named \<^verbatim>\<open>csv_filename\<close> when it
  returns.
\<close>

definition save_metadata_list ::
    "(string \<Rightarrow> bool) \<Rightarrow> AnimFileEntryMetadata list \<Rightarrow> py_error + string" where
  "save_metadata_list can_encode entry_list =
     (let out_file = [];
          fieldnames = [''filename'', ''group'', ''loop'', ''root_motion'', ''tags'', ''orig_path'']
      in case DictWriter_writeheader can_encode fieldnames out_file of
           Inl e \<Rightarrow> Inl e
         | Inr out_file \<Rightarrow> save_rows can_encode fieldnames entry_list out_file)"

text \<open>
  The constructor the \<^verbatim>\<open>@dataclass\<close> decorator generates for \<^verbatim>\<open>AnimFileEntryMetadata\<close>,
  called with keyword arguments: \<open>None\<close> is an argument the call does not pass. No field
  has a default, so a missing one raises \<^verbatim>\<open>TypeError\<close>.
\<close>

definition AnimFileEntryMetadata_init ::
    "string option \<Rightarrow> string option \<Rightarrow> bool option \<Rightarrow> bool option \<Rightarrow> string option \<Rightarrow>
     string option \<Rightarrow> py_error + AnimFileEntryMetadata" where
  "AnimFileEntryMetadata_init a_filename a_group a_loop a_root_motion a_tags a_orig_path =
     (case (a_filename, a_group, a_loop, a_root_motion, a_tags, a_orig_path) of
        (Some f, Some g, Some l, Some r, Some t, Some p) \<Rightarrow>
          Inr \<lparr>filename = f, group = g, loop = l, root_motion = r, tags = t, orig_path = p\<rparr>
      | _ \<Rightarrow> Inl TypeError)"

text \<open>The loop over \<open>anim_entries\<close>; \<open>acc\<close> is \<^verbatim>\<open>anim_metadata_list\<close>.\<close>

fun template_rows ::
    "AnimFileEntry list \<Rightarrow> AnimFileEntryMetadata list \<Rightarrow> py_error + AnimFileEntryMetadata list"
where
  "template_rows [] acc = Inr acc"
| "template_rows (anim_entry # anim_entries) acc =
     (case AnimFileEntryMetadata_init
             (Some (base_name anim_entry)) (Some (relative_path anim_entry))
             (Some (entry_should_loop anim_entry)) None
             (Some []) (Some (relative_path anim_entry)) of
        Inl e \<Rightarrow> Inl e
      | Inr metadata \<Rightarrow> template_rows anim_entries (acc @ [metadata]))"

text \<open>\<open>root_contents\<close> is the listing of \<open>root\<close>.\<close>

definition build_metadata_list_template_from_folder ::
    "os_module \<Rightarrow> (string \<Rightarrow> string) \<Rightarrow> string \<Rightarrow> fsnode list \<Rightarrow>
     py_error + AnimFileEntryMetadata list" where
  "build_metadata_list_template_from_folder os lower root root_contents =
     (let anim_crawler = AnimFileCrawler_init root;
          anim_entries =
            crawl_folders_for_anims os lower anim_crawler (root_path anim_crawler) root_contents []
      in template_rows anim_entries [])"

section \<open>\<^verbatim>\<open>AnimMetadataOrganizer\<close>\<close>

record AnimMetadataGroup =
  group_name :: string
  entries :: "AnimFileEntry list"

text \<open>
  The attributes of an organizer. \<open>group_map\<close> is the dictionary \<^verbatim>\<open>_group_map\<close>, its keys
  in insertion order. \<open>anim_metadata_list\<close> is \<open>None\<close> as long as the attribute
  \<^verbatim>\<open>_anim_metadata_list\<close> does not exist (the class body only annotates it);
  \<open>tpose_metadata\<close> and \<open>tpose_file_entry\<close> are \<open>None\<close> where Python holds \<^verbatim>\<open>None\<close>.
\<close>

record AnimMetadataOrganizer =
  group_map :: "(string \<times> AnimMetadataGroup) list"
  anim_metadata_list :: "AnimFileEntryMetadata list option"
  tpose_metadata :: "AnimFileEntryMetadata option"
  tpose_file_entry :: "AnimFileEntry option"

definition AnimMetadataOrganizer_init :: AnimMetadataOrganizer where
  "AnimMetadataOrganizer_init =
     \<lparr>group_map = [], anim_metadata_list = None, tpose_metadata = None, tpose_file_entry = None\<rparr>"

text \<open>The loop of \<^verbatim>\<open>set_anim_metadata_list\<close>, with its \<^verbatim>\<open>break\<close>.\<close>

fun first_tpose :: "AnimFileEntryMetadata list \<Rightarrow> AnimFileEntryMetadata option" where
  "first_tpose [] = None"
| "first_tpose (anim_metadata # rest) =
     (if tags anim_metadata = ''tpose'' then Some anim_metadata else first_tpose rest)"

definition set_anim_metadata_list ::
    "AnimMetadataOrganizer \<Rightarrow> AnimFileEntryMetadata list \<Rightarrow> AnimMetadataOrganizer" where
  "set_anim_metadata_list self metadata_list =
     (let self = self\<lparr>anim_metadata_list := Some metadata_list\<rparr>;
          tpose = first_tpose metadata_list
      in self\<lparr>tpose_metadata := tpose\<rparr>)"

text \<open>The loop of \<^verbatim>\<open>try_find_anim_metadata_for_entry\<close>, with its early \<^verbatim>\<open>return\<close>.\<close>

fun first_with_filename ::
    "AnimFileEntryMetadata list \<Rightarrow> AnimFileEntry \<Rightarrow> AnimFileEntryMetadata option" where
  "first_with_filename [] anim_entry = None"
| "first_with_filename (metadata # rest) anim_entry =
     (if filename metadata = base_name anim_entry then Some metadata
      else first_with_filename rest anim_entry)"

definition try_find_anim_metadata_for_entry ::
    "AnimMetadataOrganizer \<Rightarrow> AnimFileEntry \<Rightarrow> py_error + AnimFileEntryMetadata option" where
  "try_find_anim_metadata_for_entry self anim_entry =
     (case anim_metadata_list self of
        None \<Rightarrow> Inl AttributeError
      | Some metadata_list \<Rightarrow> Inr (first_with_filename metadata_list anim_entry))"

text \<open>
  \<^verbatim>\<open>add_to_group\<close>. The comparison \<^verbatim>\<open>metadata_entry == self._tpose_metadata\<close> is the
  equality of two optional rows: two data class instances are equal when their fields
  are, and \<^verbatim>\<open>None\<close> equals \<^verbatim>\<open>None\<close> only.
\<close>

definition add_to_group ::
    "AnimMetadataOrganizer \<Rightarrow> string \<Rightarrow> AnimFileEntry \<Rightarrow> py_error + AnimMetadataOrganizer" where
  "add_to_group self grp anim_entry =
     (let self = (case map_of (group_map self) grp of
                    None \<Rightarrow>
                      self\<lparr>group_map :=
                        AList.update grp \<lparr>group_name = grp, entries = []\<rparr> (group_map self)\<rparr>
                  | Some metadata_group \<Rightarrow> self)
      in case (if tpose_file_entry self = None then
                 (case try_find_anim_metadata_for_entry self anim_entry of
                    Inl e \<Rightarrow> Inl e
                  | Inr metadata_entry \<Rightarrow>
                      if metadata_entry = tpose_metadata self
                      then Inr (self\<lparr>tpose_file_entry := Some anim_entry\<rparr>)
                      else Inr self)
               else Inr self) of
           Inl e \<Rightarrow> Inl e
         | Inr self \<Rightarrow>
             Inr (self\<lparr>group_map :=
                    map (\<lambda>(k, metadata_group).
                           if k = grp
                           then (k, metadata_group\<lparr>entries := entries metadata_group @ [anim_entry]\<rparr>)
                           else (k, metadata_group))
                      (group_map self)\<rparr>))"

definition get_group_names :: "AnimMetadataOrganizer \<Rightarrow> string list" where
  "get_group_names self = map fst (group_map self)"

definition get_anim_file_entries_for_group ::
    "AnimMetadataOrganizer \<Rightarrow> string \<Rightarrow> AnimFileEntry list" where
  "get_anim_file_entries_for_group self grp =
     (case map_of (group_map self) grp of
        None \<Rightarrow> []
      | Some metadata_group \<Rightarrow> entries metadata_group)"

definition get_tpose_anim_metadata_entry ::
    "AnimMetadataOrganizer \<Rightarrow> AnimFileEntryMetadata option" where
  "get_tpose_anim_metadata_entry self = tpose_metadata self"

definition get_tpose_anim_file_entry :: "AnimMetadataOrganizer \<Rightarrow> AnimFileEntry option" where
  "get_tpose_anim_file_entry self = tpose_file_entry self"

text \<open>A caller's sequence of \<^verbatim>\<open>add_to_group\<close> calls; the first exception ends it.\<close>

fun add_all_to_group ::
    "AnimMetadataOrganizer \<Rightarrow> (string \<times> AnimFileEntry) list \<Rightarrow> py_error + AnimMetadataOrganizer"
where
  "add_all_to_group self [] = Inr self"
| "add_all_to_group self ((grp, anim_entry) # calls) =
     (case add_to_group self grp anim_entry of
        Inl e \<Rightarrow> Inl e
      | Inr self \<Rightarrow> add_all_to_group self calls)"

section \<open>\<^verbatim>\<open>SCENE_OP_retarget_batcher.execute\<close>\<close>

text \<open>
  The operators of the host application and of the rigging add-on that the group loop
  invokes are recorded in the order of their invocation; what they do to the scene is
  the host's. \<open>Push_fbx_animation p n\<close> is the call
  \<^verbatim>\<open>retarget_helpers.push_fbx_animation_to_target_rig_nla_track(p, n)\<close>, and
  \<open>Export_gltf p\<close> the call \<^verbatim>\<open>bpy.ops.export_scene.gltf(filepath=p, ...)\<close>. An operator
  that raises ends the run there; the record is of a run in which none does.
\<close>

datatype host_op =
    Delete_all_nla_tracks
  | Push_fbx_animation string string
  | Export_gltf string
  | Orphans_purge

text \<open>
  The loop over \<open>anim_entries\<close> that fills the organizer: an entry with no metadata row
  is skipped, the others take the row's \<open>loop\<close> and go to the row's group.
\<close>

fun execute_group_entries ::
    "AnimMetadataOrganizer \<Rightarrow> AnimFileEntry list \<Rightarrow> py_error + AnimMetadataOrganizer" where
  "execute_group_entries organizer [] = Inr organizer"
| "execute_group_entries organizer (anim_entry # anim_entries) =
     (case try_find_anim_metadata_for_entry organizer anim_entry of
        Inl e \<Rightarrow> Inl e
      | Inr None \<Rightarrow> execute_group_entries organizer anim_entries
      | Inr (Some anim_metadata_entry) \<Rightarrow>
          (let anim_entry = anim_entry\<lparr>entry_should_loop := loop anim_metadata_entry\<rparr>
           in case add_to_group organizer (group anim_metadata_entry) anim_entry of
                Inl e \<Rightarrow> Inl e
              | Inr organizer \<Rightarrow> execute_group_entries organizer anim_entries))"

text \<open>The name of the NLA track of one file.\<close>

definition anim_name_of :: "os_module \<Rightarrow> AnimFileEntry \<Rightarrow> string" where
  "anim_name_of os anim_file_entry =
     (let base_file_name =
            fst (path_splitext os (path_basename os (full_path anim_file_entry)));
          anim_name = base_file_name;
          anim_name = (if entry_should_loop anim_file_entry \<and> \<not> endswith anim_name ''-loop''
                       then anim_name @ ''-loop'' else anim_name)
      in anim_name)"

text \<open>The inner loop, over the files of one group; \<open>trace\<close> is what has been invoked.\<close>

fun execute_push_entries ::
    "os_module \<Rightarrow> AnimFileEntry list \<Rightarrow> host_op list \<Rightarrow> host_op list" where
  "execute_push_entries os [] trace = trace"
| "execute_push_entries os (anim_file_entry # group_file_entries) trace =
     execute_push_entries os group_file_entries
       (trace @ [Push_fbx_animation (full_path anim_file_entry) (anim_name_of os anim_file_entry)])"

text \<open>The outer loop, over the group names; \<open>export_path\<close> is the scene's export folder.\<close>

fun execute_groups ::
    "os_module \<Rightarrow> string \<Rightarrow> AnimMetadataOrganizer \<Rightarrow> string list \<Rightarrow> host_op list \<Rightarrow> host_op list"
where
  "execute_groups os export_path organizer [] trace = trace"
| "execute_groups os export_path organizer (grp # groups) trace =
     (let group_file_entries = get_anim_file_entries_for_group organizer grp;
          trace = trace @ [Delete_all_nla_tracks];
          trace = execute_push_entries os group_file_entries trace;
          sanitized_group_name = clean_group_name_to_be_filename grp;
          full_export_path = path_join os export_path (sanitized_group_name @ ''.glb'');
          trace = trace @ [Export_gltf full_export_path];
          trace = trace @ [Orphans_purge]
      in execute_groups os export_path organizer groups trace)"

text \<open>
  \<^verbatim>\<open>execute\<close> from the creation of the organizer on, for the crawled \<open>anim_entries\<close> and the
  loaded \<open>metadata_list\<close>, in a run that finds its target rig and bone map. The code
  between the two loops reads the organizer only through \<^verbatim>\<open>get_tpose_anim_file_entry\<close>.
\<close>

definition execute_batches ::
    "os_module \<Rightarrow> string \<Rightarrow> AnimFileEntryMetadata list \<Rightarrow> AnimFileEntry list \<Rightarrow>
     py_error + host_op list" where
  "execute_batches os export_path metadata_list anim_entries =
     (let organizer = AnimMetadataOrganizer_init;
          organizer = set_anim_metadata_list organizer metadata_list
      in case execute_group_entries organizer anim_entries of
           Inl e \<Rightarrow> Inl e
         | Inr organizer \<Rightarrow>
             Inr (execute_groups os export_path organizer (get_group_names organizer) []))"

section \<open>\<^verbatim>\<open>os.path\<close> on a POSIX platform\<close>

text \<open>\<^verbatim>\<open>posixpath.join(a, b)\<close>\<close>

definition posixpath_join :: "string \<Rightarrow> string \<Rightarrow> string" where
  "posixpath_join a b =
     (if startswith b ''/'' then b
      else if a = [] \<or> endswith a ''/'' then a @ b
      else a @ ''/'' @ b)"

text \<open>\<^verbatim>\<open>s.rfind(c)\<close> for a single character: the highest index of \<open>c\<close>, or \<open>-1\<close>.\<close>

definition rfind :: "string \<Rightarrow> char \<Rightarrow> int" where
  "rfind s c = (case filter (\<lambda>i. s ! i = c) (rev [0..<length s]) of
                  [] \<Rightarrow> - 1
                | i # _ \<Rightarrow> int i)"

definition posixpath_basename :: "string \<Rightarrow> string" where
  "posixpath_basename p = (let i = rfind p CHR ''/'' + 1 in drop (nat i) p)"

text \<open>
  \<^verbatim>\<open>posixpath.splitext(p)\<close>: the last dot splits the path when it lies in the last
  component and some character of that component before it is not a dot (the
  \<^verbatim>\<open>while\<close> loop of \<^verbatim>\<open>genericpath._splitext\<close> looks for one).
\<close>

definition posixpath_splitext :: "string \<Rightarrow> string \<times> string" where
  "posixpath_splitext p =
     (let sepIndex = rfind p CHR ''/'';
          dotIndex = rfind p CHR ''.''
      in if dotIndex > sepIndex \<and>
            list_ex (\<lambda>c. c \<noteq> CHR ''.'')
              (take (nat (dotIndex - (sepIndex + 1))) (drop (nat (sepIndex + 1)) p))
         then (take (nat dotIndex) p, drop (nat dotIndex) p)
         else (p, []))"

text \<open>The loop of \<^verbatim>\<open>posixpath.normpath\<close> over the components.\<close>

fun normpath_comps :: "nat \<Rightarrow> string list \<Rightarrow> string list \<Rightarrow> string list" where
  "normpath_comps initial_slashes [] new_comps = new_comps"
| "normpath_comps initial_slashes (component # comps) new_comps =
     (if component = [] \<or> component = ''.'' then normpath_comps initial_slashes comps new_comps
      else if component \<noteq> ''..'' \<or> (initial_slashes = 0 \<and> new_comps = [])
                \<or> (new_comps \<noteq> [] \<and> last new_comps = ''..'')
      then normpath_comps initial_slashes comps (new_comps @ [component])
      else if new_comps \<noteq> [] then normpath_comps initial_slashes comps (butlast new_comps)
      else normpath_comps initial_slashes comps new_comps)"

definition posixpath_normpath :: "string \<Rightarrow> string" where
  "posixpath_normpath path =
     (if path = [] then ''.''
      else
        (let initial_slashes =
               (if startswith path ''/'' then
                  (if startswith path ''//'' \<and> \<not> startswith path ''///'' then 2 else 1)
                else (0::nat));
             comps = normpath_comps initial_slashes (split_at CHR ''/'' path) [];
             path = join_with CHR ''/'' comps;
             path = replicate initial_slashes CHR ''/'' @ path
         in if path = [] then ''.'' else path))"

text \<open>\<^verbatim>\<open>posixpath.abspath(path)\<close> in the working directory \<open>cwd\<close>.\<close>

definition posixpath_abspath :: "string \<Rightarrow> string \<Rightarrow> string" where
  "posixpath_abspath cwd path =
     posixpath_normpath (if \<not> startswith path ''/'' then posixpath_join cwd path else path)"

text \<open>
  \<^verbatim>\<open>posixpath.relpath(path, start)\<close> in the working directory \<open>cwd\<close>, for a \<open>path\<close> that is
  not empty (\<^verbatim>\<open>relpath\<close> raises \<^verbatim>\<open>ValueError\<close> on the empty path).
\<close>

definition posixpath_relpath :: "string \<Rightarrow> string \<Rightarrow> string \<Rightarrow> string" where
  "posixpath_relpath cwd path start =
     (let start_list = filter (\<lambda>x. x \<noteq> []) (split_at CHR ''/'' (posixpath_abspath cwd start));
          path_list = filter (\<lambda>x. x \<noteq> []) (split_at CHR ''/'' (posixpath_abspath cwd path));
          i = length (longest_common_prefix start_list path_list);
          rel_list = replicate (length start_list - i) ''..'' @ drop i path_list
      in case rel_list of
           [] \<Rightarrow> ''.''
         | first # others \<Rightarrow> foldl posixpath_join first others)"

definition posix :: "string \<Rightarrow> os_module" where
  "posix cwd =
     \<lparr>path_join = posixpath_join, path_basename = posixpath_basename,
      path_relpath = posixpath_relpath cwd, path_splitext = posixpath_splitext\<rparr>"

section \<open>Notions used to state the properties\<close>

text \<open>
  The definitions of this section are no functions of the add-on: they name what the
  properties proved below say of it.
\<close>

text \<open>
  The group map after \<^verbatim>\<open>metadata_group.entries.append(anim_entry)\<close> for the group \<open>grp\<close>.
\<close>

definition spec_append_entry :: "string \<Rightarrow> AnimFileEntry \<Rightarrow> (string \<times> AnimMetadataGroup) list \<Rightarrow> (string \<times> AnimMetadataGroup) list" where
  "spec_append_entry grp e gm = map (\<lambda>(k, mg). if k = grp then (k, mg\<lparr>entries := entries mg @ [e]\<rparr>) else (k, mg)) gm"

text \<open>
  The distinct names of a sequence in the order of their first use, after the names
  \<open>seen\<close>: the key order of a dictionary filled in that sequence.
\<close>

fun spec_first_uses :: "string list \<Rightarrow> string list \<Rightarrow> string list" where
  "spec_first_uses seen [] = seen"
| "spec_first_uses seen (g # gs) = spec_first_uses (if g \<in> set seen then seen else seen @ [g]) gs"

text \<open>The entries that a sequence of \<^verbatim>\<open>add_to_group\<close> calls adds under the name \<open>g\<close>.\<close>

definition spec_added_under :: "string \<Rightarrow> (string \<times> AnimFileEntry) list \<Rightarrow> AnimFileEntry list" where
  "spec_added_under g calls = map snd (filter (\<lambda>call. fst call = g) calls)"

text \<open>
  The calls of \<^verbatim>\<open>add_to_group\<close> that \<^verbatim>\<open>execute\<close> makes for the crawled entries: one for
  each entry that has a metadata row, with the row's group and the row's \<open>loop\<close>.
\<close>

definition spec_matched_calls ::
    "AnimFileEntryMetadata list \<Rightarrow> AnimFileEntry list \<Rightarrow> (string \<times> AnimFileEntry) list" where
  "spec_matched_calls ms anim_entries =
     concat (map (\<lambda>e. case first_with_filename ms e of
                          None \<Rightarrow> []
                        | Some md \<Rightarrow> [(group md, e\<lparr>entry_should_loop := loop md\<rparr>)])
               anim_entries)"

text \<open>The operators \<^verbatim>\<open>execute\<close> invokes for one group with the files \<open>files\<close>.\<close>

definition spec_group_block :: "os_module \<Rightarrow> string \<Rightarrow> string \<Rightarrow> AnimFileEntry list \<Rightarrow> host_op list" where
  "spec_group_block os export_path g files =
     [Delete_all_nla_tracks]
     @ map (\<lambda>e. Push_fbx_animation (full_path e) (anim_name_of os e)) files
     @ [Export_gltf (path_join os export_path (clean_group_name_to_be_filename g @ ''.glb'')),
        Orphans_purge]"

text \<open>
  The order the operators have to come in: between two groups the NLA tracks are
  cleared; then files are pushed, until the one export of the group; then the purge.
\<close>

datatype spec_phase = Between | Retargeting | Exported

fun spec_protocol :: "spec_phase \<Rightarrow> host_op list \<Rightarrow> bool" where
  "spec_protocol ph [] = (ph = Between)"
| "spec_protocol Between (Delete_all_nla_tracks # ops) = spec_protocol Retargeting ops"
| "spec_protocol Retargeting (Push_fbx_animation p n # ops) = spec_protocol Retargeting ops"
| "spec_protocol Retargeting (Export_gltf p # ops) = spec_protocol Exported ops"
| "spec_protocol Exported (Orphans_purge # ops) = spec_protocol Between ops"
| "spec_protocol ph (other # ops) = False"

text \<open>
  The directory tree in the words of the specification: every file below \<open>folder\<close>,
  subdirectories included, with the path of the directory that lists it; the files the
  crawler is to keep; and the entry it is to make for a file.
\<close>

fun spec_files_below :: "os_module \<Rightarrow> string \<Rightarrow> fsnode list \<Rightarrow> (string \<times> string) list" where
  "spec_files_below os folder [] = []"
| "spec_files_below os folder (File name # rest) = (folder, name) # spec_files_below os folder rest"
| "spec_files_below os folder (Dir name contents # rest) =
     spec_files_below os (path_join os folder name) contents @ spec_files_below os folder rest"

definition spec_wanted :: "(string \<Rightarrow> string) \<Rightarrow> AnimFileCrawler \<Rightarrow> string \<Rightarrow> bool" where
  "spec_wanted lower self name =
     (suffix ''.fbx'' (lower name)
      \<and> (case filename_must_have self of None \<Rightarrow> True | Some s \<Rightarrow> sublist (lower s) (lower name))
      \<and> (case filename_must_not_have self of None \<Rightarrow> True | Some s \<Rightarrow> \<not> sublist (lower s) (lower name)))"

definition spec_entry ::
    "os_module \<Rightarrow> (string \<Rightarrow> string) \<Rightarrow> AnimFileCrawler \<Rightarrow> string \<Rightarrow> string \<Rightarrow> AnimFileEntry" where
  "spec_entry os lower self folder name =
     \<lparr>full_path = path_join os folder name,
      relative_path = path_relpath os (path_join os folder name) (root_path self),
      base_name = path_basename os (path_join os folder name),
      entry_should_loop = should_loop os lower (path_join os folder name)\<rparr>"

definition spec_crawled ::
    "os_module \<Rightarrow> (string \<Rightarrow> string) \<Rightarrow> AnimFileCrawler \<Rightarrow> string \<Rightarrow> fsnode list \<Rightarrow>
     AnimFileEntry list" where
  "spec_crawled os lower self folder contents =
     map (\<lambda>(d, n). spec_entry os lower self d n)
       (filter (\<lambda>(d, n). spec_wanted lower self n) (spec_files_below os folder contents))"

section \<open>Strings: facts\<close>

lemma startswith_prefix: "startswith s p \<longleftrightarrow> prefix p s"
  by (auto simp: startswith_def prefix_def) (metis append_take_drop_id)

lemma endswith_suffix: "endswith s p \<longleftrightarrow> suffix p s"
proof
  assume "endswith s p"
  then have "s = take (length s - length p) s @ p"
    by (metis append_take_drop_id endswith_def)
  then show "suffix p s" by (metis suffixI)
next
  assume "suffix p s"
  then obtain zs where "s = zs @ p" by (auto simp: suffix_def)
  then show "endswith s p" by (simp add: endswith_def)
qed

lemma contains_sublist: "contains sub s \<longleftrightarrow> sublist sub s"
  by (induction s) (auto simp: startswith_prefix sublist_Cons_right)

section \<open>The export file name of a group: facts\<close>

lemma in_class_alphabet: "in_class c \<longleftrightarrow> c \<in> filename_alphabet"
proof -
  define n where "n = (of_char c :: nat)"
  have eq: "\<And>d. (c = d) = (n = of_char d)"
    unfolding n_def by simp
  have "in_class c \<longleftrightarrow>
          (97 \<le> n \<and> n \<le> 122) \<or> (65 \<le> n \<and> n \<le> 90) \<or> (48 \<le> n \<and> n \<le> 57) \<or> n = 95 \<or> n = 45"
    by (simp add: in_class_def less_eq_char_def eq n_def[symmetric])
  moreover have "c \<in> filename_alphabet \<longleftrightarrow>
          (97 \<le> n \<and> n \<le> 122) \<or> (65 \<le> n \<and> n \<le> 90) \<or> (48 \<le> n \<and> n \<le> 57) \<or> n = 95 \<or> n = 45"
    by (simp add: filename_alphabet_def eq) arith
  ultimately show ?thesis by simp
qed

lemma clean_filter: "clean_group_name_to_be_filename s = filter in_class s"
  by (induction s) simp_all

text \<open>
  C10. For every string, \<open>clean_group_name_to_be_filename\<close> returns a string of ASCII
  letters, digits, underscores and hyphens only; the result is the input with every
  other character removed and the kept ones in place; and cleaning a cleaned name
  changes nothing.
\<close>

theorem clean_group_name_alphabet_idempotent:
  "set (clean_group_name_to_be_filename s) \<subseteq> filename_alphabet
   \<and> clean_group_name_to_be_filename s = filter (\<lambda>c. c \<in> filename_alphabet) s
   \<and> clean_group_name_to_be_filename (clean_group_name_to_be_filename s)
       = clean_group_name_to_be_filename s"
proof -
  have f: "clean_group_name_to_be_filename s = filter (\<lambda>c. c \<in> filename_alphabet) s" for s
    unfolding clean_filter by (rule filter_cong) (simp_all add: in_class_alphabet)
  show ?thesis unfolding f by auto
qed

text \<open>
  A group name with path separators, dots, a blank, a character outside ASCII and a
  line feed keeps its letters, digits, hyphen and underscore.
\<close>

theorem clean_group_name_witness:
  "clean_group_name_to_be_filename (''../Loco motion-01_A'' @ [CHR 0xC3, CHR 0xA9, CHR 0x0A] @ ''.glb'')
     = ''Locomotion-01_Aglb''
   \<and> set ''Locomotion-01_Aglb'' \<subseteq> filename_alphabet
   \<and> clean_group_name_to_be_filename ''Locomotion-01_Aglb'' = ''Locomotion-01_Aglb''"
proof -
  have e: "clean_group_name_to_be_filename (''../Loco motion-01_A'' @ [CHR 0xC3, CHR 0xA9, CHR 0x0A] @ ''.glb'')
     = ''Locomotion-01_Aglb''"
    by (simp add: in_class_def less_eq_char_def)
  show ?thesis
    using clean_group_name_alphabet_idempotent
      [of "''../Loco motion-01_A'' @ [CHR 0xC3, CHR 0xA9, CHR 0x0A] @ ''.glb''"]
    unfolding e by blast
qed

section \<open>\<^verbatim>\<open>should_loop\<close>: facts\<close>

text \<open>
  C3. For every file path, \<open>should_loop\<close> is false when the lowered base name has
  \<^verbatim>\<open>_to_\<close> or \<^verbatim>\<open>jump\<close> as a substring, and otherwise true exactly when it has one of
  \<^verbatim>\<open>walk\<close>, \<^verbatim>\<open>sprint\<close>, \<^verbatim>\<open>shuffle\<close>, \<^verbatim>\<open>turn\<close>, \<^verbatim>\<open>idle\<close>; whatever \<^verbatim>\<open>os.path.basename\<close> and
  \<^verbatim>\<open>str.lower\<close> are on the platform.
\<close>

theorem should_loop_rule:
  "should_loop os lower filepath =
     (let b = lower (path_basename os filepath)
      in \<not> (sublist ''_to_'' b \<or> sublist ''jump'' b)
         \<and> (sublist ''walk'' b \<or> sublist ''sprint'' b \<or> sublist ''shuffle'' b
              \<or> sublist ''turn'' b \<or> sublist ''idle'' b))"
  by (simp add: should_loop_def Let_def contains_sublist)

text \<open>
  Three ASCII paths on a POSIX platform: \<^verbatim>\<open>_to_\<close> wins over \<^verbatim>\<open>walk\<close> and \<^verbatim>\<open>idle\<close>; \<^verbatim>\<open>TURN\<close>
  is found whatever its case; \<^verbatim>\<open>walk\<close> in a folder name does not count.
\<close>

theorem should_loop_witness:
  "\<not> should_loop (posix ''/'') ascii_lower ''/anims/A_Walk_To_Idle.FBX''
   \<and> should_loop (posix ''/'') ascii_lower ''/anims/A_TURN_Left.fbx''
   \<and> \<not> should_loop (posix ''/'') ascii_lower ''/anims/walk/A_Wave.fbx''"
proof -
  have b1: "ascii_lower (path_basename (posix ''/'') ''/anims/A_Walk_To_Idle.FBX'') = ''a_walk_to_idle.fbx''"
    by code_simp
  have b2: "ascii_lower (path_basename (posix ''/'') ''/anims/A_TURN_Left.fbx'') = ''a_turn_left.fbx''"
    by code_simp
  have b3: "ascii_lower (path_basename (posix ''/'') ''/anims/walk/A_Wave.fbx'') = ''a_wave.fbx''"
    by code_simp
  have s1: "sublist ''_to_'' ''a_walk_to_idle.fbx''"
    by code_simp
  have s2: "\<not> sublist ''_to_'' ''a_turn_left.fbx''" "\<not> sublist ''jump'' ''a_turn_left.fbx''"
    "sublist ''turn'' ''a_turn_left.fbx''"
    by code_simp+
  have s3: "\<not> sublist ''walk'' ''a_wave.fbx''" "\<not> sublist ''sprint'' ''a_wave.fbx''"
    "\<not> sublist ''shuffle'' ''a_wave.fbx''" "\<not> sublist ''turn'' ''a_wave.fbx''"
    "\<not> sublist ''idle'' ''a_wave.fbx''"
    by code_simp+
  have "\<not> should_loop (posix ''/'') ascii_lower ''/anims/A_Walk_To_Idle.FBX''"
    unfolding should_loop_rule [of "posix ''/''" ascii_lower "''/anims/A_Walk_To_Idle.FBX''"] b1 Let_def
    using s1 by blast
  moreover have "should_loop (posix ''/'') ascii_lower ''/anims/A_TURN_Left.fbx''"
    unfolding should_loop_rule [of "posix ''/''" ascii_lower "''/anims/A_TURN_Left.fbx''"] b2 Let_def
    using s2 by blast
  moreover have "\<not> should_loop (posix ''/'') ascii_lower ''/anims/walk/A_Wave.fbx''"
    unfolding should_loop_rule [of "posix ''/''" ascii_lower "''/anims/walk/A_Wave.fbx''"] b3 Let_def
    using s3 by blast
  ultimately show ?thesis by blast
qed

section \<open>\<^verbatim>\<open>AnimMetadataOrganizer\<close>: facts\<close>

lemma find_first_split:
  "find P xs = Some x \<longleftrightarrow> (\<exists>pre post. xs = pre @ x # post \<and> P x \<and> (\<forall>y\<in>set pre. \<not> P y))"
proof
  assume "find P xs = Some x"
  then obtain i where i: "i < length xs" "P (xs ! i)" "x = xs ! i" "\<forall>j<i. \<not> P (xs ! j)"
    unfolding find_Some_iff by blast
  have "xs = take i xs @ x # drop (Suc i) xs"
    using i(1) i(3) by (simp add: id_take_nth_drop)
  moreover have "\<forall>y\<in>set (take i xs). \<not> P y"
    using i(1) i(4) by (auto simp: in_set_conv_nth)
  ultimately show "\<exists>pre post. xs = pre @ x # post \<and> P x \<and> (\<forall>y\<in>set pre. \<not> P y)"
    using i(2) i(3) by blast
next
  assume "\<exists>pre post. xs = pre @ x # post \<and> P x \<and> (\<forall>y\<in>set pre. \<not> P y)"
  then obtain pre post where p: "xs = pre @ x # post" "P x" "\<forall>y\<in>set pre. \<not> P y"
    by blast
  have "find P (pre @ x # post) = Some x"
    using p(2) p(3) by (induction pre) auto
  then show "find P xs = Some x" using p(1) by simp
qed

lemma first_with_filename_find:
  "first_with_filename ms e = find (\<lambda>m. filename m = base_name e) ms"
  by (induction ms) auto

lemma first_tpose_find: "first_tpose ms = find (\<lambda>m. tags m = ''tpose'') ms"
  by (induction ms) auto

lemma map_fst_append_entry: "map fst (spec_append_entry grp e gm) = map fst gm"
  by (induction gm) (auto simp: spec_append_entry_def)

lemma map_of_append_entry:
  "map_of (spec_append_entry grp e gm) k =
     (if k = grp then map_option (\<lambda>mg. mg\<lparr>entries := entries mg @ [e]\<rparr>) (map_of gm k) else map_of gm k)"
  by (induction gm) (auto simp: spec_append_entry_def)

lemma update_absent: "k \<notin> fst ` set al \<Longrightarrow> AList.update k v al = al @ [(k, v)]"
  by (induction al) auto

text \<open>One call of \<^verbatim>\<open>add_to_group\<close> on an organizer that holds a metadata list.\<close>

lemma add_to_group_closed:
  assumes "anim_metadata_list self = Some ms"
  shows "add_to_group self grp e =
     Inr (self\<lparr>group_map := spec_append_entry grp e
                 (if grp \<in> set (map fst (group_map self)) then group_map self
                  else group_map self @ [(grp, \<lparr>group_name = grp, entries = []\<rparr>)]),
               tpose_file_entry :=
                 (case tpose_file_entry self of
                    Some t \<Rightarrow> Some t
                  | None \<Rightarrow> if first_with_filename ms e = tpose_metadata self then Some e else None)\<rparr>)"
proof (cases "map_of (group_map self) grp")
  case None
  then have notin: "grp \<notin> set (map fst (group_map self))"
    by (simp add: map_of_eq_None_iff)
  then have upd: "AList.update grp v (group_map self) = group_map self @ [(grp, v)]" for v
    by (simp add: update_absent)
  show ?thesis
    using None notin assms
    by (cases "tpose_file_entry self")
       (simp_all add: add_to_group_def try_find_anim_metadata_for_entry_def upd spec_append_entry_def Let_def)
next
  case (Some mg)
  then have isin: "grp \<in> set (map fst (group_map self))"
    by (metis map_of_eq_None_iff option.distinct(1) set_map)
  show ?thesis
    using Some isin assms
    by (cases "tpose_file_entry self")
       (simp_all add: add_to_group_def try_find_anim_metadata_for_entry_def spec_append_entry_def Let_def)
qed

lemma add_to_group_step:
  assumes "anim_metadata_list self = Some ms"
  shows "\<exists>self'. add_to_group self grp e = Inr self'
     \<and> anim_metadata_list self' = Some ms
     \<and> tpose_metadata self' = tpose_metadata self
     \<and> get_group_names self' =
         (if grp \<in> set (get_group_names self) then get_group_names self
          else get_group_names self @ [grp])
     \<and> (\<forall>g. get_anim_file_entries_for_group self' g =
              get_anim_file_entries_for_group self g @ (if g = grp then [e] else []))
     \<and> tpose_file_entry self' =
         (case tpose_file_entry self of
            Some t \<Rightarrow> Some t
          | None \<Rightarrow> if first_with_filename ms e = tpose_metadata self then Some e else None)"
proof (cases "grp \<in> set (map fst (group_map self))")
  case True
  then obtain mg where mg: "map_of (group_map self) grp = Some mg"
    by (metis map_of_eq_None_iff not_Some_eq set_map)
  show ?thesis
    unfolding add_to_group_closed [OF assms]
    using True assms mg
    by (auto simp: get_group_names_def get_anim_file_entries_for_group_def
          map_fst_append_entry map_of_append_entry split: option.splits)
next
  case False
  then have none: "map_of (group_map self) grp = None"
    by (simp add: map_of_eq_None_iff)
  show ?thesis
    unfolding add_to_group_closed [OF assms]
    using False assms none
    by (auto simp: get_group_names_def get_anim_file_entries_for_group_def
          map_fst_append_entry map_of_append_entry map_add_def split: option.splits)
qed

lemma set_first_uses: "set (spec_first_uses seen gs) = set seen \<union> set gs"
  by (induction gs arbitrary: seen) auto

lemma distinct_first_uses: "distinct seen \<Longrightarrow> distinct (spec_first_uses seen gs)"
  by (induction gs arbitrary: seen) auto

text \<open>A sequence of calls: no call raises, and the attributes are as follows.\<close>

lemma add_all_to_group_closed:
  assumes "anim_metadata_list self = Some ms"
  shows "\<exists>self'. add_all_to_group self calls = Inr self'
     \<and> anim_metadata_list self' = Some ms
     \<and> tpose_metadata self' = tpose_metadata self
     \<and> get_group_names self' = spec_first_uses (get_group_names self) (map fst calls)
     \<and> (\<forall>g. get_anim_file_entries_for_group self' g =
              get_anim_file_entries_for_group self g @ spec_added_under g calls)
     \<and> tpose_file_entry self' =
         (case tpose_file_entry self of
            Some t \<Rightarrow> Some t
          | None \<Rightarrow> find (\<lambda>e. first_with_filename ms e = tpose_metadata self) (map snd calls))"
  using assms
proof (induction calls arbitrary: self)
  case Nil
  then show ?case by (simp add: spec_added_under_def split: option.splits)
next
  case (Cons call calls)
  obtain grp e where call: "call = (grp, e)" by (cases call)
  from add_to_group_step [OF Cons.prems, of grp e]
  obtain s1 where s1: "add_to_group self grp e = Inr s1"
      "anim_metadata_list s1 = Some ms" "tpose_metadata s1 = tpose_metadata self"
      "get_group_names s1 =
         (if grp \<in> set (get_group_names self) then get_group_names self
          else get_group_names self @ [grp])"
      "\<And>g. get_anim_file_entries_for_group s1 g =
              get_anim_file_entries_for_group self g @ (if g = grp then [e] else [])"
      "tpose_file_entry s1 =
         (case tpose_file_entry self of
            Some t \<Rightarrow> Some t
          | None \<Rightarrow> if first_with_filename ms e = tpose_metadata self then Some e else None)"
    by blast
  from Cons.IH [OF s1(2)]
  obtain s2 where s2: "add_all_to_group s1 calls = Inr s2"
      "anim_metadata_list s2 = Some ms" "tpose_metadata s2 = tpose_metadata s1"
      "get_group_names s2 = spec_first_uses (get_group_names s1) (map fst calls)"
      "\<And>g. get_anim_file_entries_for_group s2 g =
              get_anim_file_entries_for_group s1 g @ spec_added_under g calls"
      "tpose_file_entry s2 =
         (case tpose_file_entry s1 of
            Some t \<Rightarrow> Some t
          | None \<Rightarrow> find (\<lambda>e. first_with_filename ms e = tpose_metadata s1) (map snd calls))"
    by blast
  have "add_all_to_group self (call # calls) = Inr s2"
    by (simp add: call s1(1) s2(1))
  moreover have "get_group_names s2 = spec_first_uses (get_group_names self) (map fst (call # calls))"
    by (simp add: call s2(4) s1(4))
  moreover have "get_anim_file_entries_for_group s2 g =
              get_anim_file_entries_for_group self g @ spec_added_under g (call # calls)" for g
    by (simp add: call s2(5) s1(5) spec_added_under_def)
  moreover have "tpose_file_entry s2 =
         (case tpose_file_entry self of
            Some t \<Rightarrow> Some t
          | None \<Rightarrow> find (\<lambda>e. first_with_filename ms e = tpose_metadata self) (map snd (call # calls)))"
    by (simp add: call s2(6) s1(6) s1(3) split: option.splits)
  ultimately show ?case
    using s2(2) s2(3) s1(3) by auto
qed

lemma set_anim_metadata_list_init:
  "anim_metadata_list (set_anim_metadata_list AnimMetadataOrganizer_init ms) = Some ms"
  "tpose_metadata (set_anim_metadata_list AnimMetadataOrganizer_init ms) = first_tpose ms"
  "tpose_file_entry (set_anim_metadata_list AnimMetadataOrganizer_init ms) = None"
  "get_group_names (set_anim_metadata_list AnimMetadataOrganizer_init ms) = []"
  "get_anim_file_entries_for_group (set_anim_metadata_list AnimMetadataOrganizer_init ms) g = []"
  by (simp_all add: set_anim_metadata_list_def AnimMetadataOrganizer_init_def Let_def
        get_group_names_def get_anim_file_entries_for_group_def)

lemma add_all_from_init:
  "\<exists>organizer.
     add_all_to_group (set_anim_metadata_list AnimMetadataOrganizer_init ms) calls = Inr organizer
     \<and> anim_metadata_list organizer = Some ms
     \<and> tpose_metadata organizer = first_tpose ms
     \<and> get_group_names organizer = spec_first_uses [] (map fst calls)
     \<and> (\<forall>g. get_anim_file_entries_for_group organizer g = spec_added_under g calls)
     \<and> tpose_file_entry organizer =
           find (\<lambda>e. first_with_filename ms e = first_tpose ms) (map snd calls)"
  using add_all_to_group_closed
    [OF set_anim_metadata_list_init(1), of ms calls]
  by (simp add: set_anim_metadata_list_init)

lemma tpose_file_entry_after_adds:
  "\<exists>organizer.
     add_all_to_group (set_anim_metadata_list AnimMetadataOrganizer_init ms) calls = Inr organizer
     \<and> get_tpose_anim_metadata_entry organizer = first_tpose ms
     \<and> get_tpose_anim_file_entry organizer =
           find (\<lambda>e. first_with_filename ms e = first_tpose ms) (map snd calls)"
  using add_all_from_init [of ms calls]
  by (auto simp: get_tpose_anim_metadata_entry_def get_tpose_anim_file_entry_def)

text \<open>
  Before \<^verbatim>\<open>set_anim_metadata_list\<close> the attribute \<^verbatim>\<open>_anim_metadata_list\<close> does not exist,
  and the first \<^verbatim>\<open>add_to_group\<close> raises when it looks for the reference pose: the entry
  it was called with reaches no group.
\<close>

theorem add_to_group_before_metadata:
  "add_all_to_group AnimMetadataOrganizer_init
     [(''Locomotion'',
       \<lparr>full_path = ''/anims/A_Walk.fbx'', relative_path = ''A_Walk.fbx'',
        base_name = ''A_Walk.fbx'', entry_should_loop = True\<rparr>)]
   = Inl AttributeError"
  by (simp add: add_to_group_def AnimMetadataOrganizer_init_def
        try_find_anim_metadata_for_entry_def Let_def)

text \<open>
  C5, amended. On an organizer whose metadata list has been set, every sequence of
  \<^verbatim>\<open>add_to_group\<close> calls returns; the list of a group holds exactly the entries added
  under its name, in the order they were added, and so none that was added under
  another name only; a name never added has the empty list; and \<^verbatim>\<open>get_group_names\<close>
  returns exactly the names added, each once, in the order of their first use.
\<close>

theorem add_to_group_grouping:
  "\<exists>organizer.
     add_all_to_group (set_anim_metadata_list AnimMetadataOrganizer_init metadata_list) calls
       = Inr organizer
     \<and> (\<forall>g. get_anim_file_entries_for_group organizer g
              = map snd (filter (\<lambda>call. fst call = g) calls))
     \<and> (\<forall>g. g \<notin> fst ` set calls \<longrightarrow> get_anim_file_entries_for_group organizer g = [])
     \<and> set (get_group_names organizer) = fst ` set calls
     \<and> distinct (get_group_names organizer)
     \<and> get_group_names organizer = spec_first_uses [] (map fst calls)"
proof -
  obtain organizer where o:
    "add_all_to_group (set_anim_metadata_list AnimMetadataOrganizer_init metadata_list) calls
       = Inr organizer"
    "get_group_names organizer = spec_first_uses [] (map fst calls)"
    "\<And>g. get_anim_file_entries_for_group organizer g = spec_added_under g calls"
    using add_all_from_init [of metadata_list calls] by blast
  have "spec_added_under g calls = []" if "g \<notin> fst ` set calls" for g
    using that by (induction calls) (auto simp: spec_added_under_def)
  then show ?thesis
    using o by (auto simp: spec_added_under_def set_first_uses distinct_first_uses)
qed

text \<open>Three calls under two names; a third name was never added.\<close>

theorem add_to_group_grouping_witness:
  "\<exists>organizer.
     add_all_to_group (set_anim_metadata_list AnimMetadataOrganizer_init [])
       [(''Walk'', \<lparr>full_path = ''/a/W1.fbx'', relative_path = ''W1.fbx'', base_name = ''W1.fbx'',
                   entry_should_loop = True\<rparr>),
        (''Idle'', \<lparr>full_path = ''/a/I1.fbx'', relative_path = ''I1.fbx'', base_name = ''I1.fbx'',
                   entry_should_loop = True\<rparr>),
        (''Walk'', \<lparr>full_path = ''/a/W2.fbx'', relative_path = ''W2.fbx'', base_name = ''W2.fbx'',
                   entry_should_loop = False\<rparr>)]
       = Inr organizer
     \<and> get_anim_file_entries_for_group organizer ''Walk''
         = [\<lparr>full_path = ''/a/W1.fbx'', relative_path = ''W1.fbx'', base_name = ''W1.fbx'',
              entry_should_loop = True\<rparr>,
            \<lparr>full_path = ''/a/W2.fbx'', relative_path = ''W2.fbx'', base_name = ''W2.fbx'',
              entry_should_loop = False\<rparr>]
     \<and> get_anim_file_entries_for_group organizer ''Idle''
         = [\<lparr>full_path = ''/a/I1.fbx'', relative_path = ''I1.fbx'', base_name = ''I1.fbx'',
              entry_should_loop = True\<rparr>]
     \<and> get_anim_file_entries_for_group organizer ''Jump'' = []
     \<and> get_group_names organizer = [''Walk'', ''Idle'']"
  using add_to_group_grouping [of "[]"
    "[(''Walk'', \<lparr>full_path = ''/a/W1.fbx'', relative_path = ''W1.fbx'', base_name = ''W1.fbx'',
                   entry_should_loop = True\<rparr>),
        (''Idle'', \<lparr>full_path = ''/a/I1.fbx'', relative_path = ''I1.fbx'', base_name = ''I1.fbx'',
                   entry_should_loop = True\<rparr>),
        (''Walk'', \<lparr>full_path = ''/a/W2.fbx'', relative_path = ''W2.fbx'', base_name = ''W2.fbx'',
                   entry_should_loop = False\<rparr>)]"]
  by auto

section \<open>The reference pose file: facts\<close>

text \<open>
  What \<^verbatim>\<open>get_tpose_anim_file_entry\<close> returns after \<^verbatim>\<open>set_anim_metadata_list\<close> and a sequence
  of \<^verbatim>\<open>add_to_group\<close> calls: the first added entry for which the first row with its base
  name and the first row tagged \<^verbatim>\<open>tpose\<close> are equal, also when there is neither.
\<close>

lemma tpose_file_entry_first_equal:
  "\<exists>organizer.
     add_all_to_group (set_anim_metadata_list AnimMetadataOrganizer_init ms) calls = Inr organizer
     \<and> get_tpose_anim_file_entry organizer =
           find (\<lambda>e. find (\<lambda>m. filename m = base_name e) ms = find (\<lambda>m. tags m = ''tpose'') ms)
             (map snd calls)"
  using tpose_file_entry_after_adds [of ms calls]
  unfolding first_with_filename_find first_tpose_find
  by blast

text \<open>
  C1. \<^verbatim>\<open>get_tpose_anim_file_entry\<close> is to return \<^verbatim>\<open>None\<close> when no metadata row is tagged
  \<^verbatim>\<open>tpose\<close>. It does not: here the metadata list has one row, which is not tagged, and a
  file without a row is added. \<^verbatim>\<open>add_to_group\<close> finds no row for the file,
  the row tagged \<^verbatim>\<open>tpose\<close> it looks for is \<^verbatim>\<open>None\<close> as well, \<^verbatim>\<open>None == None\<close> holds, and the
  file is stored and returned as the reference pose file.
\<close>

theorem tpose_file_entry_without_tpose_row:
  "first_tpose
     [\<lparr>filename = ''A_Idle.fbx'', group = ''Idle'', loop = True, root_motion = False,
       tags = [], orig_path = ''Idle/A_Idle.fbx''\<rparr>] = None
   \<and> first_with_filename
     [\<lparr>filename = ''A_Idle.fbx'', group = ''Idle'', loop = True, root_motion = False,
       tags = [], orig_path = ''Idle/A_Idle.fbx''\<rparr>]
     \<lparr>full_path = ''/anims/B_Wave.fbx'', relative_path = ''B_Wave.fbx'',
      base_name = ''B_Wave.fbx'', entry_should_loop = False\<rparr> = None
   \<and> (case add_to_group
            (set_anim_metadata_list AnimMetadataOrganizer_init
               [\<lparr>filename = ''A_Idle.fbx'', group = ''Idle'', loop = True, root_motion = False,
       tags = [], orig_path = ''Idle/A_Idle.fbx''\<rparr>])
            ''Misc''
            \<lparr>full_path = ''/anims/B_Wave.fbx'', relative_path = ''B_Wave.fbx'',
      base_name = ''B_Wave.fbx'', entry_should_loop = False\<rparr> of
         Inl err \<Rightarrow> None
       | Inr organizer \<Rightarrow> get_tpose_anim_file_entry organizer)
       = Some \<lparr>full_path = ''/anims/B_Wave.fbx'', relative_path = ''B_Wave.fbx'',
      base_name = ''B_Wave.fbx'', entry_should_loop = False\<rparr>"
  by (simp add: add_to_group_def set_anim_metadata_list_def AnimMetadataOrganizer_init_def
        try_find_anim_metadata_for_entry_def get_tpose_anim_file_entry_def Let_def)

section \<open>\<^verbatim>\<open>execute\<close>: facts\<close>

lemma execute_group_entries_calls:
  assumes "anim_metadata_list organizer = Some ms"
  shows "execute_group_entries organizer anim_entries
           = add_all_to_group organizer (spec_matched_calls ms anim_entries)"
  using assms
proof (induction anim_entries arbitrary: organizer)
  case Nil
  then show ?case by (simp add: spec_matched_calls_def)
next
  case (Cons e es)
  show ?case
  proof (cases "first_with_filename ms e")
    case None
    then show ?thesis
      using Cons by (simp add: spec_matched_calls_def try_find_anim_metadata_for_entry_def)
  next
    case (Some md)
    obtain o1 where o1: "add_to_group organizer (group md) (e\<lparr>entry_should_loop := loop md\<rparr>) = Inr o1"
        "anim_metadata_list o1 = Some ms"
      using add_to_group_step [OF Cons.prems] by blast
    have "spec_matched_calls ms (e # es) = (group md, e\<lparr>entry_should_loop := loop md\<rparr>) # spec_matched_calls ms es"
      by (simp add: spec_matched_calls_def Some)
    then show ?thesis
      using Cons.IH [OF o1(2)] Cons.prems Some o1(1)
      by (simp add: try_find_anim_metadata_for_entry_def Let_def)
  qed
qed

lemma execute_push_entries_trace:
  "execute_push_entries os files trace
     = trace @ map (\<lambda>e. Push_fbx_animation (full_path e) (anim_name_of os e)) files"
  by (induction files arbitrary: trace) simp_all

lemma execute_groups_trace:
  "execute_groups os export_path organizer groups trace
     = trace @ concat (map (\<lambda>g. spec_group_block os export_path g
                                  (get_anim_file_entries_for_group organizer g)) groups)"
  by (induction groups arbitrary: trace)
     (simp_all add: Let_def execute_push_entries_trace spec_group_block_def)

lemma protocol_pushes:
  "spec_protocol Retargeting (map (\<lambda>e. Push_fbx_animation (f e) (n e)) files @ ops)
     = spec_protocol Retargeting ops"
  by (induction files) simp_all

lemma protocol_block:
  "spec_protocol Between (spec_group_block os export_path g files @ ops) = spec_protocol Between ops"
  by (simp add: spec_group_block_def protocol_pushes)

lemma protocol_blocks:
  "spec_protocol Between (concat (map (\<lambda>g. spec_group_block os export_path g (files g)) groups))"
  by (induction groups) (simp_all add: protocol_block)

lemma matched_calls_sound:
  "call \<in> set (spec_matched_calls ms anim_entries) \<Longrightarrow>
     \<exists>e\<in>set anim_entries. \<exists>md\<in>set ms.
        filename md = base_name e \<and> call = (group md, e\<lparr>entry_should_loop := loop md\<rparr>)"
proof -
  have f: "first_with_filename ms e = Some md \<Longrightarrow> md \<in> set ms \<and> filename md = base_name e" for e md
    by (induction ms) (auto split: if_splits)
  assume "call \<in> set (spec_matched_calls ms anim_entries)"
  then obtain e where e: "e \<in> set anim_entries"
      "call \<in> set (case first_with_filename ms e of
                       None \<Rightarrow> []
                     | Some md \<Rightarrow> [(group md, e\<lparr>entry_should_loop := loop md\<rparr>)])"
    by (auto simp: spec_matched_calls_def)
  then obtain md where md: "first_with_filename ms e = Some md"
      "call = (group md, e\<lparr>entry_should_loop := loop md\<rparr>)"
    by (cases "first_with_filename ms e") auto
  show ?thesis
    using e(1) md f [OF md(1)] by blast
qed

lemma execute_batches_closed:
  "execute_batches os export_path ms anim_entries =
     Inr (concat (map (\<lambda>g. spec_group_block os export_path g
                             (spec_added_under g (spec_matched_calls ms anim_entries)))
                    (spec_first_uses [] (map fst (spec_matched_calls ms anim_entries)))))"
proof -
  obtain organizer where o:
    "add_all_to_group (set_anim_metadata_list AnimMetadataOrganizer_init ms)
        (spec_matched_calls ms anim_entries) = Inr organizer"
    "get_group_names organizer = spec_first_uses [] (map fst (spec_matched_calls ms anim_entries))"
    "\<And>g. get_anim_file_entries_for_group organizer g
            = spec_added_under g (spec_matched_calls ms anim_entries)"
    using add_all_from_init [of ms "spec_matched_calls ms anim_entries"] by blast
  have "execute_group_entries (set_anim_metadata_list AnimMetadataOrganizer_init ms) anim_entries
          = Inr organizer"
    using execute_group_entries_calls [OF set_anim_metadata_list_init(1)] o(1) by simp
  then show ?thesis
    by (simp add: execute_batches_def Let_def execute_groups_trace o(2) o(3))
qed

text \<open>
  C6. The operators \<^verbatim>\<open>execute\<close> invokes are, group after group in the order the groups
  were first used and each group once: the clearing of the NLA tracks, the push of each
  file of the group in the order the files were crawled, the one export of the group,
  the purge. So every push comes after the clearing for its group and before the
  export of its group. A file is pushed only if it was crawled and a metadata row has
  its base name for file name.
\<close>

theorem execute_batches_order:
  "\<exists>trace.
     execute_batches os export_path metadata_list anim_entries = Inr trace
     \<and> trace =
         concat (map (\<lambda>g. [Delete_all_nla_tracks]
                            @ map (\<lambda>e. Push_fbx_animation (full_path e) (anim_name_of os e))
                                (map snd (filter (\<lambda>call. fst call = g)
                                   (spec_matched_calls metadata_list anim_entries)))
                            @ [Export_gltf (path_join os export_path
                                  (clean_group_name_to_be_filename g @ ''.glb'')),
                               Orphans_purge])
                   (spec_first_uses [] (map fst (spec_matched_calls metadata_list anim_entries))))
     \<and> distinct (spec_first_uses [] (map fst (spec_matched_calls metadata_list anim_entries)))
     \<and> spec_protocol Between trace
     \<and> (\<forall>p n. Push_fbx_animation p n \<in> set trace \<longrightarrow>
            (\<exists>e\<in>set anim_entries. full_path e = p
                \<and> (\<exists>md\<in>set metadata_list. filename md = base_name e)))"
proof -
  let ?calls = "spec_matched_calls metadata_list anim_entries"
  let ?trace = "concat (map (\<lambda>g. spec_group_block os export_path g (spec_added_under g ?calls))
                    (spec_first_uses [] (map fst ?calls)))"
  have run: "execute_batches os export_path metadata_list anim_entries = Inr ?trace"
    by (rule execute_batches_closed)
  have pushes: "\<exists>e\<in>set anim_entries. full_path e = p
                \<and> (\<exists>md\<in>set metadata_list. filename md = base_name e)"
    if "Push_fbx_animation p n \<in> set ?trace" for p n
  proof -
    from that obtain g where "Push_fbx_animation p n \<in> set (spec_group_block os export_path g (spec_added_under g ?calls))"
      by auto
    then obtain e' where e': "e' \<in> set (spec_added_under g ?calls)" "p = full_path e'"
      by (auto simp: spec_group_block_def)
    then have "(g, e') \<in> set ?calls"
      by (auto simp: spec_added_under_def)
    from matched_calls_sound [OF this]
    obtain e md where "e \<in> set anim_entries" "md \<in> set metadata_list"
        "filename md = base_name e" "e' = e\<lparr>entry_should_loop := loop md\<rparr>"
      by auto
    then show ?thesis using e'(2) by auto
  qed
  have "spec_protocol Between ?trace"
    by (rule protocol_blocks)
  moreover have "distinct (spec_first_uses [] (map fst ?calls))"
    by (simp add: distinct_first_uses)
  ultimately show ?thesis
  proof (intro exI conjI allI impI)
    show "execute_batches os export_path metadata_list anim_entries = Inr ?trace"
      by (rule run)
    show "?trace =
         concat (map (\<lambda>g. [Delete_all_nla_tracks]
                            @ map (\<lambda>e. Push_fbx_animation (full_path e) (anim_name_of os e))
                                (map snd (filter (\<lambda>call. fst call = g) ?calls))
                            @ [Export_gltf (path_join os export_path
                                  (clean_group_name_to_be_filename g @ ''.glb'')),
                               Orphans_purge])
                   (spec_first_uses [] (map fst ?calls)))"
      by (simp add: spec_group_block_def spec_added_under_def)
  qed (use pushes in blast)+
qed

text \<open>
  Three crawled files, one of them with no metadata row, and two groups: the file
  without a row is not pushed, and the looping file gets \<^verbatim>\<open>-loop\<close> in its track name.
\<close>

theorem execute_batches_order_witness:
  "execute_batches (posix ''/'') ''/out''
     [\<lparr>filename = ''A_Walk.fbx'', group = ''Loco/Walk'', loop = True, root_motion = False,
       tags = [], orig_path = ''Loco/A_Walk.fbx''\<rparr>,
      \<lparr>filename = ''A_Wave.fbx'', group = ''Emote'', loop = False, root_motion = False,
       tags = [], orig_path = ''Emote/A_Wave.fbx''\<rparr>]
     [\<lparr>full_path = ''/in/A_Walk.fbx'', relative_path = ''A_Walk.fbx'', base_name = ''A_Walk.fbx'',
       entry_should_loop = False\<rparr>,
      \<lparr>full_path = ''/in/B_None.fbx'', relative_path = ''B_None.fbx'', base_name = ''B_None.fbx'',
       entry_should_loop = True\<rparr>,
      \<lparr>full_path = ''/in/A_Wave.fbx'', relative_path = ''A_Wave.fbx'', base_name = ''A_Wave.fbx'',
       entry_should_loop = True\<rparr>]
   = Inr [Delete_all_nla_tracks, Push_fbx_animation ''/in/A_Walk.fbx'' ''A_Walk-loop'',
          Export_gltf ''/out/LocoWalk.glb'', Orphans_purge,
          Delete_all_nla_tracks, Push_fbx_animation ''/in/A_Wave.fbx'' ''A_Wave'',
          Export_gltf ''/out/Emote.glb'', Orphans_purge]
   \<and> spec_protocol Between
       [Delete_all_nla_tracks, Push_fbx_animation ''/in/A_Walk.fbx'' ''A_Walk-loop'',
          Export_gltf ''/out/LocoWalk.glb'', Orphans_purge,
          Delete_all_nla_tracks, Push_fbx_animation ''/in/A_Wave.fbx'' ''A_Wave'',
          Export_gltf ''/out/Emote.glb'', Orphans_purge]"
proof -
  let ?ms = "[\<lparr>filename = ''A_Walk.fbx'', group = ''Loco/Walk'', loop = True, root_motion = False,
       tags = [], orig_path = ''Loco/A_Walk.fbx''\<rparr>,
      \<lparr>filename = ''A_Wave.fbx'', group = ''Emote'', loop = False, root_motion = False,
       tags = [], orig_path = ''Emote/A_Wave.fbx''\<rparr>]"
  let ?es = "[\<lparr>full_path = ''/in/A_Walk.fbx'', relative_path = ''A_Walk.fbx'', base_name = ''A_Walk.fbx'',
       entry_should_loop = False\<rparr>,
      \<lparr>full_path = ''/in/B_None.fbx'', relative_path = ''B_None.fbx'', base_name = ''B_None.fbx'',
       entry_should_loop = True\<rparr>,
      \<lparr>full_path = ''/in/A_Wave.fbx'', relative_path = ''A_Wave.fbx'', base_name = ''A_Wave.fbx'',
       entry_should_loop = True\<rparr>]"
  let ?tr = "[Delete_all_nla_tracks, Push_fbx_animation ''/in/A_Walk.fbx'' ''A_Walk-loop'',
          Export_gltf ''/out/LocoWalk.glb'', Orphans_purge,
          Delete_all_nla_tracks, Push_fbx_animation ''/in/A_Wave.fbx'' ''A_Wave'',
          Export_gltf ''/out/Emote.glb'', Orphans_purge]"
  have ev: "execute_batches (posix ''/'') ''/out'' ?ms ?es = Inr ?tr"
    by code_simp
  from execute_batches_order [of "posix ''/''" "''/out''" ?ms ?es]
  obtain trace where t: "execute_batches (posix ''/'') ''/out'' ?ms ?es = Inr trace"
      "spec_protocol Between trace"
    by blast
  from t(1) have "trace = ?tr" unfolding ev by simp
  then show ?thesis using t(2) ev by simp
qed

section \<open>\<^verbatim>\<open>crawl_folders_for_anims\<close>: facts\<close>

lemma include_flag_spec:
  "endswith (lower name) ''.fbx'' \<and> include_flag lower self (lower name)
     \<longleftrightarrow> spec_wanted lower self name"
  by (auto simp: include_flag_def spec_wanted_def endswith_suffix contains_sublist Let_def
      split: option.splits)

lemma crawl_spec:
  "crawl_folders_for_anims os lower self folder contents out
     = out @ spec_crawled os lower self folder contents"
  "crawl_item os lower self folder item out = out @ spec_crawled os lower self folder [item]"
proof (induction os lower self folder contents out and os lower self folder item out
       rule: crawl_folders_for_anims_crawl_item.induct)
  case (1 os lower self folder_path out_entries)
  then show ?case by (simp add: spec_crawled_def)
next
  case (2 os lower self folder_path item path_contents out_entries)
  have "spec_crawled os lower self folder_path (item # path_contents)
          = spec_crawled os lower self folder_path [item]
            @ spec_crawled os lower self folder_path path_contents"
    by (cases item) (simp_all add: spec_crawled_def)
  then show ?case using 2 by simp
next
  case (3 os lower self folder_path name contents out_entries)
  then show ?case by (simp add: spec_crawled_def)
next
  case (4 os lower self folder_path name out_entries)
  show ?case
    using include_flag_spec [of lower name self]
    by (auto simp: spec_crawled_def spec_entry_def Let_def)
qed



section \<open>\<^verbatim>\<open>build_metadata_list_template_from_folder\<close>: facts\<close>

lemma template_rows_raises:
  "template_rows anim_entries acc = (if anim_entries = [] then Inr acc else Inl TypeError)"
  by (cases anim_entries) (simp_all add: AnimFileEntryMetadata_init_def)

lemma spec_wanted_default:
  "spec_wanted lower (AnimFileCrawler_init root) name \<longleftrightarrow> suffix ''.fbx'' (lower name)"
  by (simp add: spec_wanted_def AnimFileCrawler_init_def)

text \<open>
  C8. \<^verbatim>\<open>build_metadata_list_template_from_folder\<close> raises \<^verbatim>\<open>TypeError\<close> for every folder
  below which some file has a lowered name ending with \<^verbatim>\<open>.fbx\<close>; it returns a list, the
  empty one, only when there is no such file.
\<close>

theorem build_metadata_list_template_raises:
  "build_metadata_list_template_from_folder os lower root root_contents =
     (if filter (\<lambda>(d, n). suffix ''.fbx'' (lower n)) (spec_files_below os root root_contents) = []
      then Inr [] else Inl TypeError)"
proof -
  have r: "root_path (AnimFileCrawler_init root) = root"
    by (simp add: AnimFileCrawler_init_def)
  have w: "(\<lambda>(d, n). spec_wanted lower (AnimFileCrawler_init root) n)
             = (\<lambda>(d::string, n). suffix ''.fbx'' (lower n))"
    by (simp add: spec_wanted_default)
  show ?thesis
    by (simp add: build_metadata_list_template_from_folder_def Let_def crawl_spec(1)
          template_rows_raises spec_crawled_def r w)
qed

text \<open>A folder with an FBX file in a subdirectory, and a folder without any.\<close>

theorem build_metadata_list_template_witness:
  "build_metadata_list_template_from_folder (posix ''/'') ascii_lower ''/in''
     [File ''readme.txt'', Dir ''sub'' [File ''A_Walk.FBX'']] = Inl TypeError
   \<and> build_metadata_list_template_from_folder (posix ''/'') ascii_lower ''/in''
     [File ''readme.txt'', Dir ''sub.fbx'' [File ''A_Walk.fbx.bak'']] = Inr []"
proof -
  have a: "filter (\<lambda>(d, n). suffix ''.fbx'' (ascii_lower n))
             (spec_files_below (posix ''/'') ''/in''
                [File ''readme.txt'', Dir ''sub'' [File ''A_Walk.FBX'']]) \<noteq> []"
    by code_simp
  have b: "filter (\<lambda>(d, n). suffix ''.fbx'' (ascii_lower n))
             (spec_files_below (posix ''/'') ''/in''
                [File ''readme.txt'', Dir ''sub.fbx'' [File ''A_Walk.fbx.bak'']]) = []"
    by code_simp
  show ?thesis
    using build_metadata_list_template_raises [of "posix ''/''" ascii_lower "''/in''"
        "[File ''readme.txt'', Dir ''sub'' [File ''A_Walk.FBX'']]"]
      build_metadata_list_template_raises [of "posix ''/''" ascii_lower "''/in''"
        "[File ''readme.txt'', Dir ''sub.fbx'' [File ''A_Walk.fbx.bak'']]"]
      a b
    by simp
qed

section \<open>Text files and the \<^verbatim>\<open>csv\<close> module: facts\<close>

lemma str_len_simps [simp]:
  "str_len [] = 0"
  "str_len (s @ [c]) = (if utf8_continuation c then str_len s else str_len s + 1)"
  by (simp_all add: str_len_def)

lemma str_len_append_le: "str_len s \<le> str_len (s @ t)"
  by (simp add: str_len_def)

lemma str_len_Cons_le: "str_len [c] \<le> str_len (c # f)"
  using str_len_append_le [of "[c]" f] by simp

lemma str_len_replicate:
  "\<not> utf8_continuation c \<Longrightarrow> str_len (replicate n c) = int n"
  by (simp add: str_len_def)

lemma not_continuation [simp]:
  "\<not> utf8_continuation (CHR 0x0A)" "\<not> utf8_continuation (CHR 0x22)"
  "\<not> utf8_continuation (CHR 0x2C)"
  by (simp_all add: utf8_continuation_def less_eq_char_def)

text \<open>
  Universal newlines leave a text without a carriage return as it is, and iterating
  over the reader takes the text of the file character by character: a line feed ends
  a line, and the line may end a record.
\<close>

lemma universal_newlines_no_cr:
  "CHR 0x0D \<notin> set a \<Longrightarrow> universal_newlines (a @ b) = a @ universal_newlines b"
proof (induction a)
  case Nil
  then show ?case by simp
next
  case (Cons c a)
  then have c: "c \<noteq> CHR 0x0D" and ih: "universal_newlines (a @ b) = a @ universal_newlines b"
    by auto
  show ?case
  proof (cases "a @ b")
    case Nil
    then show ?thesis using c by simp
  next
    case (Cons d rest)
    then have "universal_newlines (c # a @ b) = c # universal_newlines (a @ b)"
      using c by simp
    then show ?thesis using ih by simp
  qed
qed

lemma text_lines_nonempty: "rest \<noteq> [] \<Longrightarrow> text_lines rest \<noteq> []"
  by (cases rest) (auto split: list.splits)

lemma peel_char:
  assumes "c \<noteq> CHR 0x0A" "rest \<noteq> []"
  shows "reader_iter L S (text_lines (c # rest)) =
     (case parse_process_char L S (Some c) of
        Inl e \<Rightarrow> ([], Some e)
      | Inr S' \<Rightarrow> reader_iter L S' (text_lines rest))"
proof -
  obtain line lines where l: "text_lines rest = line # lines"
    using text_lines_nonempty [OF assms(2)] by (cases "text_lines rest") auto
  have "text_lines (c # rest) = (c # line) # lines"
    using assms(1) l by simp
  then show ?thesis
    using l by (simp split: sum.splits)
qed

lemma peel_LF:
  "reader_iter L S (text_lines (CHR 0x0A # rest)) =
     (case parse_process_char L S (Some (CHR 0x0A)) of
        Inl e \<Rightarrow> ([], Some e)
      | Inr S1 \<Rightarrow>
          (case parse_process_char L S1 None of
             Inl e \<Rightarrow> ([], Some e)
           | Inr S2 \<Rightarrow>
               if reader_state S2 = START_RECORD
               then (case reader_iter L parse_reset (text_lines rest) of
                       (records, raised) \<Rightarrow> (reader_fields S2 # records, raised))
               else reader_iter L S2 (text_lines rest)))"
  by (simp split: sum.splits)

lemmas parser_defs =
  parse_process_char_def parse_start_field_def parse_add_char_def parse_save_field_def
  end_of_record_def after_record_def delimiter_def quotechar_def

text \<open>
  The steps of the parser at the start of a cell, inside a cell and at its end.
\<close>

lemma start_quote:
  assumes "st = START_RECORD \<or> st = START_FIELD"
  shows "parse_process_char L
           \<lparr>reader_fields = fs, reader_state = st, reader_field = [], reader_field_len = 0\<rparr>
           (Some (CHR 0x22))
         = Inr \<lparr>reader_fields = fs, reader_state = IN_QUOTED_FIELD, reader_field = [],
                reader_field_len = 0\<rparr>"
  using assms by (auto simp: parser_defs)

lemma start_delimiter:
  assumes "st = START_RECORD \<or> st = START_FIELD"
  shows "parse_process_char L
           \<lparr>reader_fields = fs, reader_state = st, reader_field = [], reader_field_len = 0\<rparr>
           (Some (CHR 0x2C))
         = Inr \<lparr>reader_fields = fs @ [[]], reader_state = START_FIELD, reader_field = [],
                reader_field_len = 0\<rparr>"
  using assms by (auto simp: parser_defs)

lemma start_plain:
  assumes "st = START_RECORD \<or> st = START_FIELD"
    and "c \<noteq> CHR 0x2C" "c \<noteq> CHR 0x22" "c \<noteq> CHR 0x0D" "c \<noteq> CHR 0x0A"
    and "str_len [c] \<le> L"
  shows "parse_process_char L
           \<lparr>reader_fields = fs, reader_state = st, reader_field = [], reader_field_len = 0\<rparr>
           (Some c)
         = Inr \<lparr>reader_fields = fs, reader_state = IN_FIELD, reader_field = [c],
                reader_field_len = str_len [c]\<rparr>"
  using assms str_len_simps(2) [of "[]" c]
  by (cases "utf8_continuation c") (auto simp: parser_defs)

lemma close_quote:
  "parse_process_char L
           \<lparr>reader_fields = fs, reader_state = IN_QUOTED_FIELD, reader_field = g,
            reader_field_len = n\<rparr> (Some (CHR 0x22))
         = Inr \<lparr>reader_fields = fs, reader_state = QUOTE_IN_QUOTED_FIELD, reader_field = g,
                reader_field_len = n\<rparr>"
  by (simp add: parser_defs)

lemma delimiter_ends_field:
  assumes "st = IN_FIELD \<or> st = QUOTE_IN_QUOTED_FIELD"
  shows "parse_process_char L
           \<lparr>reader_fields = fs, reader_state = st, reader_field = g, reader_field_len = n\<rparr>
           (Some (CHR 0x2C))
         = Inr \<lparr>reader_fields = fs @ [g], reader_state = START_FIELD, reader_field = [],
                reader_field_len = 0\<rparr>"
  using assms by (auto simp: parser_defs)

lemma LF_ends_record:
  assumes "st = IN_FIELD \<or> st = QUOTE_IN_QUOTED_FIELD \<or> st = START_FIELD"
  shows "reader_iter L
           \<lparr>reader_fields = fs, reader_state = st, reader_field = g, reader_field_len = n\<rparr>
           (text_lines (CHR 0x0A # rest))
         = (case reader_iter L parse_reset (text_lines rest) of
              (records, raised) \<Rightarrow> ((fs @ [g]) # records, raised))"
proof -
  have s1: "parse_process_char L
           \<lparr>reader_fields = fs, reader_state = st, reader_field = g, reader_field_len = n\<rparr>
           (Some (CHR 0x0A))
         = Inr \<lparr>reader_fields = fs @ [g], reader_state = EAT_CRNL, reader_field = [],
                reader_field_len = 0\<rparr>"
    using assms by (auto simp: parser_defs)
  have s2: "parse_process_char L
           \<lparr>reader_fields = fs @ [g], reader_state = EAT_CRNL, reader_field = [],
                reader_field_len = 0\<rparr> None
         = Inr \<lparr>reader_fields = fs @ [g], reader_state = START_RECORD, reader_field = [],
                reader_field_len = 0\<rparr>"
    by (simp add: parser_defs)
  show ?thesis
    by (simp add: peel_LF s1 s2 del: text_lines.simps reader_iter.simps)
qed

text \<open>
  Inside a cell that is not quoted the reader takes every character that is no delimiter,
  quote or line end, up to the field size limit; inside a quoted cell it takes every
  character, a doubled quote as one quote and a line feed along with the line it ends.
\<close>

lemma plain_run:
  assumes "\<forall>c\<in>set h. c \<noteq> CHR 0x2C \<and> c \<noteq> CHR 0x22 \<and> c \<noteq> CHR 0x0D \<and> c \<noteq> CHR 0x0A"
    and "str_len (g @ h) \<le> L" and "rest \<noteq> []"
  shows "reader_iter L
           \<lparr>reader_fields = fs, reader_state = IN_FIELD, reader_field = g,
            reader_field_len = str_len g\<rparr> (text_lines (h @ rest))
         = reader_iter L
           \<lparr>reader_fields = fs, reader_state = IN_FIELD, reader_field = g @ h,
            reader_field_len = str_len (g @ h)\<rparr> (text_lines rest)"
  using assms
proof (induction h arbitrary: g)
  case Nil
  then show ?case by simp
next
  case (Cons c h)
  have c: "c \<noteq> CHR 0x2C" "c \<noteq> CHR 0x22" "c \<noteq> CHR 0x0D" "c \<noteq> CHR 0x0A"
    using Cons.prems(1) by auto
  have len: "str_len (g @ [c]) \<le> L"
    using Cons.prems(2) str_len_append_le [of "g @ [c]" h] by simp
  have step: "parse_process_char L
           \<lparr>reader_fields = fs, reader_state = IN_FIELD, reader_field = g,
            reader_field_len = str_len g\<rparr> (Some c)
        = Inr \<lparr>reader_fields = fs, reader_state = IN_FIELD, reader_field = g @ [c],
            reader_field_len = str_len (g @ [c])\<rparr>"
    using c len by (cases "utf8_continuation c") (simp_all add: parser_defs)
  have "reader_iter L
           \<lparr>reader_fields = fs, reader_state = IN_FIELD, reader_field = g,
            reader_field_len = str_len g\<rparr> (text_lines ((c # h) @ rest))
      = reader_iter L
           \<lparr>reader_fields = fs, reader_state = IN_FIELD, reader_field = g @ [c],
            reader_field_len = str_len (g @ [c])\<rparr> (text_lines (h @ rest))"
    using peel_char [of c "h @ rest" L] c(4) Cons.prems(3) step by simp
  also have "\<dots> = reader_iter L
           \<lparr>reader_fields = fs, reader_state = IN_FIELD, reader_field = (g @ [c]) @ h,
            reader_field_len = str_len ((g @ [c]) @ h)\<rparr> (text_lines rest)"
    using Cons.IH [of "g @ [c]"] Cons.prems by simp
  finally show ?case by simp
qed

lemma plain_overflow:
  assumes "\<forall>c\<in>set h. c \<noteq> CHR 0x2C \<and> c \<noteq> CHR 0x22 \<and> c \<noteq> CHR 0x0D \<and> c \<noteq> CHR 0x0A"
    and "str_len g \<le> L" and "L < str_len (g @ h)" and "rest \<noteq> []"
  shows "reader_iter L
           \<lparr>reader_fields = fs, reader_state = IN_FIELD, reader_field = g,
            reader_field_len = str_len g\<rparr> (text_lines (h @ rest))
         = ([], Some csv_Error)"
  using assms
proof (induction h arbitrary: g)
  case Nil
  then show ?case by simp
next
  case (Cons c h)
  have c: "c \<noteq> CHR 0x2C" "c \<noteq> CHR 0x22" "c \<noteq> CHR 0x0D" "c \<noteq> CHR 0x0A"
    using Cons.prems(1) by auto
  have ne: "h @ rest \<noteq> []" using Cons.prems(4) by simp
  show ?case
  proof (cases "str_len (g @ [c]) \<le> L")
    case True
    have step: "parse_process_char L
           \<lparr>reader_fields = fs, reader_state = IN_FIELD, reader_field = g,
            reader_field_len = str_len g\<rparr> (Some c)
        = Inr \<lparr>reader_fields = fs, reader_state = IN_FIELD, reader_field = g @ [c],
            reader_field_len = str_len (g @ [c])\<rparr>"
      using c True by (cases "utf8_continuation c") (simp_all add: parser_defs)
    have "reader_iter L
           \<lparr>reader_fields = fs, reader_state = IN_FIELD, reader_field = g @ [c],
            reader_field_len = str_len (g @ [c])\<rparr> (text_lines (h @ rest))
          = ([], Some csv_Error)"
      using Cons.prems True by (intro Cons.IH) simp_all
    then show ?thesis
      using c(4) ne by (simp add: peel_char step del: text_lines.simps reader_iter.simps)
  next
    case False
    have step: "parse_process_char L
           \<lparr>reader_fields = fs, reader_state = IN_FIELD, reader_field = g,
            reader_field_len = str_len g\<rparr> (Some c)
        = Inl csv_Error"
      using c False Cons.prems(2)
      by (cases "utf8_continuation c") (simp_all add: parser_defs)
    show ?thesis
      using c(4) ne by (simp add: peel_char step del: text_lines.simps reader_iter.simps)
  qed
qed

lemma quoted_run:
  assumes "CHR 0x0D \<notin> set h"
    and "str_len (g @ h) \<le> L" and "rest \<noteq> []"
  shows "reader_iter L
           \<lparr>reader_fields = fs, reader_state = IN_QUOTED_FIELD, reader_field = g,
            reader_field_len = str_len g\<rparr>
           (text_lines (concat (map (\<lambda>c. if c = quotechar then [quotechar, c] else [c]) h) @ rest))
         = reader_iter L
           \<lparr>reader_fields = fs, reader_state = IN_QUOTED_FIELD, reader_field = g @ h,
            reader_field_len = str_len (g @ h)\<rparr> (text_lines rest)"
  using assms
proof (induction h arbitrary: g)
  case Nil
  then show ?case by simp
next
  case (Cons c h)
  let ?esc = "concat (map (\<lambda>c. if c = quotechar then [quotechar, c] else [c]) h)"
  have cr: "c \<noteq> CHR 0x0D" using Cons.prems(1) by auto
  have len: "str_len (g @ [c]) \<le> L"
    using Cons.prems(2) str_len_append_le [of "g @ [c]" h] by simp
  have ne: "?esc @ rest \<noteq> []" using Cons.prems(3) by simp
  have ih: "reader_iter L
           \<lparr>reader_fields = fs, reader_state = IN_QUOTED_FIELD, reader_field = g @ [c],
            reader_field_len = str_len (g @ [c])\<rparr> (text_lines (?esc @ rest))
      = reader_iter L
           \<lparr>reader_fields = fs, reader_state = IN_QUOTED_FIELD, reader_field = g @ c # h,
            reader_field_len = str_len (g @ c # h)\<rparr> (text_lines rest)"
    using Cons.IH [of "g @ [c]"] Cons.prems by simp
  consider (quote) "c = CHR 0x22" | (lf) "c = CHR 0x0A" | (other) "c \<noteq> CHR 0x22" "c \<noteq> CHR 0x0A"
    by blast
  then have "reader_iter L
           \<lparr>reader_fields = fs, reader_state = IN_QUOTED_FIELD, reader_field = g,
            reader_field_len = str_len g\<rparr>
           (text_lines (concat (map (\<lambda>c. if c = quotechar then [quotechar, c] else [c]) (c # h)) @ rest))
      = reader_iter L
           \<lparr>reader_fields = fs, reader_state = IN_QUOTED_FIELD, reader_field = g @ [c],
            reader_field_len = str_len (g @ [c])\<rparr> (text_lines (?esc @ rest))"
  proof cases
    case quote
    have s1: "parse_process_char L
           \<lparr>reader_fields = fs, reader_state = IN_QUOTED_FIELD, reader_field = g,
            reader_field_len = str_len g\<rparr> (Some (CHR 0x22))
        = Inr \<lparr>reader_fields = fs, reader_state = QUOTE_IN_QUOTED_FIELD, reader_field = g,
            reader_field_len = str_len g\<rparr>"
      by (simp add: parser_defs)
    have s2: "parse_process_char L
           \<lparr>reader_fields = fs, reader_state = QUOTE_IN_QUOTED_FIELD, reader_field = g,
            reader_field_len = str_len g\<rparr> (Some (CHR 0x22))
        = Inr \<lparr>reader_fields = fs, reader_state = IN_QUOTED_FIELD, reader_field = g @ [CHR 0x22],
            reader_field_len = str_len (g @ [CHR 0x22])\<rparr>"
      using len quote by (simp add: parser_defs)
    show ?thesis
      using peel_char [of "CHR 0x22" "CHR 0x22 # ?esc @ rest" L] peel_char [of "CHR 0x22" "?esc @ rest" L]
        ne s1 s2 quote
      by (simp add: quotechar_def)
  next
    case lf
    have s1: "parse_process_char L
           \<lparr>reader_fields = fs, reader_state = IN_QUOTED_FIELD, reader_field = g,
            reader_field_len = str_len g\<rparr> (Some (CHR 0x0A))
        = Inr \<lparr>reader_fields = fs, reader_state = IN_QUOTED_FIELD, reader_field = g @ [CHR 0x0A],
            reader_field_len = str_len (g @ [CHR 0x0A])\<rparr>"
      using len lf by (simp add: parser_defs)
    have s2: "parse_process_char L
           \<lparr>reader_fields = fs, reader_state = IN_QUOTED_FIELD, reader_field = g @ [CHR 0x0A],
            reader_field_len = str_len (g @ [CHR 0x0A])\<rparr> None
        = Inr \<lparr>reader_fields = fs, reader_state = IN_QUOTED_FIELD, reader_field = g @ [CHR 0x0A],
            reader_field_len = str_len (g @ [CHR 0x0A])\<rparr>"
      by (simp add: parser_defs)
    show ?thesis
      using peel_LF [of L _ "?esc @ rest"] s1 s2 lf
      by (simp add: quotechar_def)
  next
    case other
    have s1: "parse_process_char L
           \<lparr>reader_fields = fs, reader_state = IN_QUOTED_FIELD, reader_field = g,
            reader_field_len = str_len g\<rparr> (Some c)
        = Inr \<lparr>reader_fields = fs, reader_state = IN_QUOTED_FIELD, reader_field = g @ [c],
            reader_field_len = str_len (g @ [c])\<rparr>"
      using len other by (cases "utf8_continuation c") (simp_all add: parser_defs)
    show ?thesis
      using peel_char [of c "?esc @ rest" L] ne s1 other
      by (simp add: quotechar_def)
  qed
  then show ?case using ih by simp
qed

text \<open>
  The text of a cell, in the two cases of \<open>join_append\<close>, and what the reader makes of
  it and of the delimiter or the line end after it.
\<close>

lemma join_append_cases:
  "join_append f =
     (if list_ex (\<lambda>c. c = CHR 0x2C \<or> c = CHR 0x22 \<or> c = CHR 0x0D \<or> c = CHR 0x0A) f
      then CHR 0x22 # concat (map (\<lambda>c. if c = quotechar then [quotechar, c] else [c]) f) @ [CHR 0x22]
      else f)"
proof -
  have "concat (map (\<lambda>c. if c = quotechar then [quotechar, c] else [c]) f) = f"
    if "\<not> list_ex (\<lambda>c. c = CHR 0x2C \<or> c = CHR 0x22 \<or> c = CHR 0x0D \<or> c = CHR 0x0A) f"
    using that by (induction f) (auto simp: quotechar_def)
  then show ?thesis
    by (auto simp: join_append_def Let_def delimiter_def quotechar_def
          lineterminator_def list_ex_iff)
qed

lemma field_run:
  assumes "st = START_RECORD \<or> st = START_FIELD"
    and "CHR 0x0D \<notin> set f" and "str_len f \<le> L" and "rest \<noteq> []"
    and "join_append f \<noteq> []"
  shows "\<exists>st'. (st' = IN_FIELD \<or> st' = QUOTE_IN_QUOTED_FIELD)
           \<and> reader_iter L
               \<lparr>reader_fields = fs, reader_state = st, reader_field = [], reader_field_len = 0\<rparr>
               (text_lines (join_append f @ rest))
             = reader_iter L
               \<lparr>reader_fields = fs, reader_state = st', reader_field = f,
                reader_field_len = str_len f\<rparr>
               (text_lines rest)"
proof (cases "list_ex (\<lambda>c. c = CHR 0x2C \<or> c = CHR 0x22 \<or> c = CHR 0x0D \<or> c = CHR 0x0A) f")
  case True
  let ?esc = "concat (map (\<lambda>c. if c = quotechar then [quotechar, c] else [c]) f)"
  have j: "join_append f = CHR 0x22 # ?esc @ [CHR 0x22]"
    using True by (simp add: join_append_cases)
  have "reader_iter L
               \<lparr>reader_fields = fs, reader_state = st, reader_field = [], reader_field_len = 0\<rparr>
               (text_lines (join_append f @ rest))
        = reader_iter L
               \<lparr>reader_fields = fs, reader_state = IN_QUOTED_FIELD, reader_field = [],
                reader_field_len = str_len []\<rparr>
               (text_lines (?esc @ (CHR 0x22 # rest)))"
    unfolding j
    by (simp add: peel_char start_quote [OF assms(1)] del: text_lines.simps reader_iter.simps)
  also have "\<dots> = reader_iter L
               \<lparr>reader_fields = fs, reader_state = IN_QUOTED_FIELD, reader_field = [] @ f,
                reader_field_len = str_len ([] @ f)\<rparr>
               (text_lines (CHR 0x22 # rest))"
    using assms by (intro quoted_run) simp_all
  also have "\<dots> = reader_iter L
               \<lparr>reader_fields = fs, reader_state = QUOTE_IN_QUOTED_FIELD, reader_field = f,
                reader_field_len = str_len f\<rparr>
               (text_lines rest)"
    using assms(4)
    by (simp add: peel_char close_quote del: text_lines.simps reader_iter.simps)
  finally show ?thesis by blast
next
  case False
  have j: "join_append f = f"
    using False by (simp add: join_append_cases)
  then obtain c f' where f: "f = c # f'"
    using assms(5) by (cases f) auto
  have plain: "\<forall>c\<in>set f. c \<noteq> CHR 0x2C \<and> c \<noteq> CHR 0x22 \<and> c \<noteq> CHR 0x0D \<and> c \<noteq> CHR 0x0A"
    using False by (auto simp: list_ex_iff)
  have c: "c \<noteq> CHR 0x2C" "c \<noteq> CHR 0x22" "c \<noteq> CHR 0x0D" "c \<noteq> CHR 0x0A"
    using plain f by auto
  have l1: "str_len [c] \<le> L"
    using assms(3) str_len_Cons_le [of c f'] f by simp
  have "reader_iter L
               \<lparr>reader_fields = fs, reader_state = st, reader_field = [], reader_field_len = 0\<rparr>
               (text_lines (join_append f @ rest))
        = reader_iter L
               \<lparr>reader_fields = fs, reader_state = IN_FIELD, reader_field = [c],
                reader_field_len = str_len [c]\<rparr>
               (text_lines (f' @ rest))"
    using c(4) assms(4) j
    by (simp add: f peel_char start_plain [OF assms(1) c l1] del: text_lines.simps reader_iter.simps)
  also have "\<dots> = reader_iter L
               \<lparr>reader_fields = fs, reader_state = IN_FIELD, reader_field = [c] @ f',
                reader_field_len = str_len ([c] @ f')\<rparr>
               (text_lines rest)"
    using plain assms f by (intro plain_run) simp_all
  finally show ?thesis using f by auto
qed

lemma field_then_delimiter:
  assumes "st = START_RECORD \<or> st = START_FIELD"
    and "CHR 0x0D \<notin> set f" and "str_len f \<le> L" and "rest \<noteq> []"
  shows "reader_iter L
           \<lparr>reader_fields = fs, reader_state = st, reader_field = [], reader_field_len = 0\<rparr>
           (text_lines (join_append f @ CHR 0x2C # rest))
         = reader_iter L
           \<lparr>reader_fields = fs @ [f], reader_state = START_FIELD, reader_field = [],
            reader_field_len = 0\<rparr>
           (text_lines rest)"
proof (cases "join_append f = []")
  case True
  then have f: "f = []"
    by (auto simp: join_append_cases split: if_splits)
  show ?thesis
    unfolding True
    using assms(4)
    by (simp add: f peel_char start_delimiter [OF assms(1)] del: text_lines.simps reader_iter.simps)
next
  case False
  from field_run [OF assms(1) assms(2) assms(3) _ False, of "CHR 0x2C # rest" fs]
  obtain st' where st': "st' = IN_FIELD \<or> st' = QUOTE_IN_QUOTED_FIELD"
    and run: "reader_iter L
               \<lparr>reader_fields = fs, reader_state = st, reader_field = [], reader_field_len = 0\<rparr>
               (text_lines (join_append f @ CHR 0x2C # rest))
             = reader_iter L
               \<lparr>reader_fields = fs, reader_state = st', reader_field = f,
                reader_field_len = str_len f\<rparr>
               (text_lines (CHR 0x2C # rest))"
    by auto
  show ?thesis
    unfolding run
    using assms(4)
    by (simp add: peel_char delimiter_ends_field [OF st'] del: text_lines.simps reader_iter.simps)
qed

lemma field_then_LF:
  assumes "st = START_RECORD \<or> st = START_FIELD"
    and "CHR 0x0D \<notin> set f" and "str_len f \<le> L"
    and "st = START_RECORD \<longrightarrow> join_append f \<noteq> []"
  shows "reader_iter L
           \<lparr>reader_fields = fs, reader_state = st, reader_field = [], reader_field_len = 0\<rparr>
           (text_lines (join_append f @ CHR 0x0A # rest))
         = (case reader_iter L parse_reset (text_lines rest) of
              (records, raised) \<Rightarrow> ((fs @ [f]) # records, raised))"
proof (cases "join_append f = []")
  case True
  then have f: "f = []"
    by (auto simp: join_append_cases split: if_splits)
  have st: "st = START_FIELD" using assms(1) assms(4) True by auto
  show ?thesis
    unfolding True st
    using LF_ends_record [of START_FIELD L fs "[]" 0 rest]
    by (simp add: f del: text_lines.simps reader_iter.simps)
next
  case False
  from field_run [OF assms(1) assms(2) assms(3) _ False, of "CHR 0x0A # rest" fs]
  obtain st' where st': "st' = IN_FIELD \<or> st' = QUOTE_IN_QUOTED_FIELD"
    and run: "reader_iter L
               \<lparr>reader_fields = fs, reader_state = st, reader_field = [], reader_field_len = 0\<rparr>
               (text_lines (join_append f @ CHR 0x0A # rest))
             = reader_iter L
               \<lparr>reader_fields = fs, reader_state = st', reader_field = f,
                reader_field_len = str_len f\<rparr>
               (text_lines (CHR 0x0A # rest))"
    by auto
  show ?thesis
    unfolding run
    using LF_ends_record [of st' L fs f "str_len f" rest] st' by blast
qed

text \<open>
  The line of a row, and the lines of a list of rows.
\<close>

lemma record_run:
  assumes "row \<noteq> []"
    and "\<forall>f\<in>set row. CHR 0x0D \<notin> set f \<and> str_len f \<le> L"
    and "st = START_RECORD \<or> st = START_FIELD"
    and "st = START_RECORD \<longrightarrow> join_with CHR 0x2C (map join_append row) \<noteq> []"
  shows "reader_iter L
           \<lparr>reader_fields = fs, reader_state = st, reader_field = [], reader_field_len = 0\<rparr>
           (text_lines (join_with CHR 0x2C (map join_append row) @ CHR 0x0A # rest))
         = (case reader_iter L parse_reset (text_lines rest) of
              (records, raised) \<Rightarrow> ((fs @ row) # records, raised))"
  using assms
proof (induction row arbitrary: fs st)
  case Nil
  then show ?case by simp
next
  case (Cons f row)
  have f: "CHR 0x0D \<notin> set f" "str_len f \<le> L"
    using Cons.prems(2) by auto
  show ?case
  proof (cases row)
    case Nil
    have "st = START_RECORD \<longrightarrow> join_append f \<noteq> []"
      using Cons.prems(4) Nil by simp
    from field_then_LF [OF Cons.prems(3) f this, of fs rest]
    show ?thesis using Nil by simp
  next
    case (Cons g row')
    let ?tail = "join_with CHR 0x2C (map join_append row) @ CHR 0x0A # rest"
    have j: "join_with CHR 0x2C (map join_append (f # row)) @ CHR 0x0A # rest
             = join_append f @ CHR 0x2C # ?tail"
      using Cons by simp
    have ne: "?tail \<noteq> []" by simp
    have "reader_iter L
           \<lparr>reader_fields = fs, reader_state = st, reader_field = [], reader_field_len = 0\<rparr>
           (text_lines (join_with CHR 0x2C (map join_append (f # row)) @ CHR 0x0A # rest))
        = reader_iter L
           \<lparr>reader_fields = fs @ [f], reader_state = START_FIELD, reader_field = [],
            reader_field_len = 0\<rparr> (text_lines ?tail)"
      unfolding j by (rule field_then_delimiter [OF Cons.prems(3) f ne])
    also have "\<dots> = (case reader_iter L parse_reset (text_lines rest) of
              (records, raised) \<Rightarrow> (((fs @ [f]) @ row) # records, raised))"
      using Cons.prems(2) Cons
      by (intro Cons.IH) simp_all
    finally show ?thesis by simp
  qed
qed

lemma records_run:
  assumes "\<forall>row\<in>set rows. row \<noteq> [] \<and> join_with CHR 0x2C (map join_append row) \<noteq> []
             \<and> (\<forall>f\<in>set row. CHR 0x0D \<notin> set f \<and> str_len f \<le> L)"
  shows "reader_iter L parse_reset
           (text_lines (concat (map (\<lambda>row. join_with CHR 0x2C (map join_append row) @ [CHR 0x0A])
                                  rows)))
         = (rows, None)"
  using assms
proof (induction rows)
  case Nil
  then show ?case by (simp add: parse_reset_def)
next
  case (Cons row rows)
  have r: "row \<noteq> []" "join_with CHR 0x2C (map join_append row) \<noteq> []"
    "\<forall>f\<in>set row. CHR 0x0D \<notin> set f \<and> str_len f \<le> L"
    using Cons.prems by auto
  have ih: "reader_iter L parse_reset
           (text_lines (concat (map (\<lambda>row. join_with CHR 0x2C (map join_append row) @ [CHR 0x0A])
                                  rows))) = (rows, None)"
    using Cons by simp
  from record_run [OF r(1) r(3), of START_RECORD "[]"
      "concat (map (\<lambda>row. join_with CHR 0x2C (map join_append row) @ [CHR 0x0A]) rows)"] r(2)
  show ?case
    by (simp add: ih [unfolded parse_reset_def] parse_reset_def
          del: text_lines.simps reader_iter.simps)
qed

lemma join_append_no_cr: "CHR 0x0D \<notin> set f \<Longrightarrow> CHR 0x0D \<notin> set (join_append f)"
  by (auto simp: join_append_cases quotechar_def split: if_splits)

lemma join_with_no_cr:
  "\<forall>p\<in>set parts. CHR 0x0D \<notin> set p \<Longrightarrow> CHR 0x0D \<notin> set (join_with CHR 0x2C parts)"
  by (induction "CHR 0x2C" parts rule: join_with.induct) auto

lemma universal_newlines_rows:
  assumes "\<forall>row\<in>set rows. join_with CHR 0x2C (map join_append row) \<noteq> []
             \<and> (\<forall>f\<in>set row. CHR 0x0D \<notin> set f)"
  shows "universal_newlines (concat (map csv_writerow rows))
         = concat (map (\<lambda>row. join_with CHR 0x2C (map join_append row) @ [CHR 0x0A]) rows)"
  using assms
proof (induction rows)
  case Nil
  then show ?case by simp
next
  case (Cons row rows)
  let ?body = "join_with CHR 0x2C (map join_append row)"
  have b: "?body \<noteq> []" and c: "\<forall>f\<in>set row. CHR 0x0D \<notin> set f"
    using Cons.prems by auto
  have w: "csv_writerow row = ?body @ [CHR 0x0D, CHR 0x0A]"
    using b by (simp add: csv_writerow_def Let_def delimiter_def lineterminator_def)
  have nocr: "CHR 0x0D \<notin> set ?body"
    using c by (intro join_with_no_cr) (auto simp: join_append_no_cr)
  have "universal_newlines (concat (map csv_writerow (row # rows)))
        = universal_newlines (?body @ (CHR 0x0D # CHR 0x0A # concat (map csv_writerow rows)))"
    by (simp add: w)
  also have "\<dots> = ?body @ universal_newlines (CHR 0x0D # CHR 0x0A # concat (map csv_writerow rows))"
    by (rule universal_newlines_no_cr [OF nocr])
  also have "\<dots> = ?body @ CHR 0x0A # universal_newlines (concat (map csv_writerow rows))"
    by simp
  finally show ?case using Cons by simp
qed

text \<open>
  What \<^verbatim>\<open>csv.writer\<close> writes into a file opened with \<^verbatim>\<open>newline=''\<close>, \<^verbatim>\<open>csv.reader\<close> reads
  from the file opened without it, for rows of two cells or more whose cells hold no
  carriage return and no more characters than the field size limit.
\<close>

lemma csv_reader_writerow:
  assumes "\<forall>row\<in>set rows. 2 \<le> length row
             \<and> (\<forall>f\<in>set row. CHR 0x0D \<notin> set f \<and> str_len f \<le> L)"
  shows "csv_reader L (open_r (concat (map csv_writerow rows))) = (rows, None)"
proof -
  have body: "join_with CHR 0x2C (map join_append row) \<noteq> []" if len: "2 \<le> length row" for row
  proof -
    obtain f t where t: "row = f # t"
      using len by (cases row) auto
    then obtain g row' where "t = g # row'"
      using len by (cases t) auto
    then show ?thesis using t by simp
  qed
  have 1: "\<forall>row\<in>set rows. join_with CHR 0x2C (map join_append row) \<noteq> []
             \<and> (\<forall>f\<in>set row. CHR 0x0D \<notin> set f)"
    using assms body by auto
  have 2: "\<forall>row\<in>set rows. row \<noteq> [] \<and> join_with CHR 0x2C (map join_append row) \<noteq> []
             \<and> (\<forall>f\<in>set row. CHR 0x0D \<notin> set f \<and> str_len f \<le> L)"
    using assms body by auto
  show ?thesis
    unfolding csv_reader_def open_r_def universal_newlines_rows [OF 1]
    by (rule records_run [OF 2])
qed

text \<open>
  The dictionary of a row: its keys are the field names, and under a field name that
  occurs once it has the cell at the place of the name, or \<^verbatim>\<open>None\<close> when the row ends
  before.
\<close>

lemma dom_dict_row: "dom (dict_row fieldnames row) = set fieldnames"
  by (induction fieldnames row rule: dict_row.induct) auto

lemma dict_row_nth:
  "distinct fieldnames \<Longrightarrow> i < length fieldnames \<Longrightarrow>
     dict_row fieldnames row (fieldnames ! i)
       = Some (if i < length row then Some (row ! i) else None)"
proof (induction fieldnames row arbitrary: i rule: dict_row.induct)
  case (1 row)
  then show ?case by simp
next
  case (2 key fieldnames)
  have d: "dom (dict_row fieldnames []) = set fieldnames" by (rule dom_dict_row)
  show ?case
  proof (cases i)
    case 0
    have "key \<notin> dom (dict_row fieldnames [])" using 2(2) d by simp
    then show ?thesis using 0 by (simp add: map_add_def domIff split: option.splits)
  next
    case (Suc j)
    then have "dict_row fieldnames [] (fieldnames ! j) = Some None"
      using 2 by simp
    then show ?thesis using Suc by (simp add: map_add_def)
  qed
next
  case (3 key fieldnames cell row)
  have d: "dom (dict_row fieldnames row) = set fieldnames" by (rule dom_dict_row)
  show ?case
  proof (cases i)
    case 0
    have "key \<notin> dom (dict_row fieldnames row)" using 3(2) d by simp
    then show ?thesis using 0 by (simp add: map_add_def domIff split: option.splits)
  next
    case (Suc j)
    then have "dict_row fieldnames row (fieldnames ! j)
                 = Some (if j < length row then Some (row ! j) else None)"
      using 3 by simp
    then show ?thesis using Suc by (simp add: map_add_def)
  qed
qed

section \<open>Matching and loading the metadata: facts\<close>

lemma metadata_of_row_closed:
  assumes "set [''filename'', ''group'', ''loop'', ''root_motion'', ''tags'', ''orig_path'']
             \<subseteq> dom row"
  shows "metadata_of_row row =
     Inr \<lparr>loaded_filename = the (row ''filename''), loaded_group = the (row ''group''),
          loaded_loop = (row ''loop'' = Some (Some ''TRUE'')),
          loaded_root_motion = (row ''root_motion'' = Some (Some ''TRUE'')),
          loaded_tags = the (row ''tags''), loaded_orig_path = the (row ''orig_path'')\<rparr>"
proof -
  obtain c1 c2 c3 c4 c5 c6 where c: "row ''filename'' = Some c1" "row ''group'' = Some c2"
      "row ''loop'' = Some c3" "row ''root_motion'' = Some c4" "row ''tags'' = Some c5"
      "row ''orig_path'' = Some c6"
    using assms by (simp add: dom_def) blast
  show ?thesis
    by (simp add: metadata_of_row_def getitem_def c)
qed

lemma load_rows_closed:
  assumes "\<forall>row\<in>set rows. metadata_of_row row = Inr (md row)"
  shows "load_rows rows ign acc
           = Inr (acc @ filter (\<lambda>m. \<not> ign \<or> \<not> loaded_root_motion m) (map md rows))"
  using assms by (induction rows arbitrary: acc) auto

text \<open>
  \<^verbatim>\<open>load_metadata_list\<close> on a file whose header has the six columns: an exception of the
  reader is raised, after the rows before it went through the loop; otherwise the rows
  are returned.
\<close>

lemma load_metadata_list_closed:
  assumes "csv_reader field_limit (open_r csv_file) = (fieldnames # records, raised)"
    and "set [''filename'', ''group'', ''loop'', ''root_motion'', ''tags'', ''orig_path'']
           \<subseteq> set fieldnames"
  shows "load_metadata_list field_limit csv_file ign =
     (case raised of
        Some e \<Rightarrow> Inl e
      | None \<Rightarrow>
         Inr (filter (\<lambda>m. \<not> ign \<or> \<not> loaded_root_motion m)
            (map (\<lambda>row. \<lparr>loaded_filename = the (row ''filename''),
                          loaded_group = the (row ''group''),
                          loaded_loop = (row ''loop'' = Some (Some ''TRUE'')),
                          loaded_root_motion = (row ''root_motion'' = Some (Some ''TRUE'')),
                          loaded_tags = the (row ''tags''),
                          loaded_orig_path = the (row ''orig_path'')\<rparr>)
               (map (dict_row fieldnames) (filter (\<lambda>row. row \<noteq> []) records)))))"
proof -
  let ?rows = "map (dict_row fieldnames) (filter (\<lambda>row. row \<noteq> []) records)"
  have r: "DictReader field_limit (open_r csv_file) = (?rows, raised)"
    by (simp add: DictReader_def assms(1))
  have "\<forall>row\<in>set ?rows.
          set [''filename'', ''group'', ''loop'', ''root_motion'', ''tags'', ''orig_path'']
            \<subseteq> dom row"
    using assms(2) by (auto simp: dom_dict_row)
  then have "\<forall>row\<in>set ?rows. metadata_of_row row =
     Inr \<lparr>loaded_filename = the (row ''filename''), loaded_group = the (row ''group''),
          loaded_loop = (row ''loop'' = Some (Some ''TRUE'')),
          loaded_root_motion = (row ''root_motion'' = Some (Some ''TRUE'')),
          loaded_tags = the (row ''tags''), loaded_orig_path = the (row ''orig_path'')\<rparr>"
    using metadata_of_row_closed by blast
  from load_rows_closed [OF this, of ign "[]"]
  show ?thesis
    by (simp add: load_metadata_list_def r Let_def split: option.splits)
qed

lemma header_cells:
  "\<forall>f\<in>set [''filename'', ''group'', ''loop'', ''root_motion'', ''tags'', ''orig_path''].
     CHR 0x0D \<notin> set f \<and> str_len f \<le> 11"
  by (simp add: str_len_def utf8_continuation_def less_eq_char_def)

text \<open>
  A file whose second line begins with a cell of 131073 characters, one more than the
  field size limit.
\<close>

lemma load_field_over_limit:
  "load_metadata_list 131072
     (''filename,group,loop,root_motion,tags,orig_path\<newline>''
      @ replicate 131073 (CHR ''x'') @ '',Walk,TRUE,FALSE,,Walk/x.fbx\<newline>'') False
   = Inl csv_Error"
proof -
  let ?names = "[''filename'', ''group'', ''loop'', ''root_motion'', ''tags'', ''orig_path'']"
  let ?tail = "'',Walk,TRUE,FALSE,,Walk/x.fbx\<newline>''"
  let ?second = "replicate 131073 (CHR ''x'') @ ?tail"
  let ?text = "''filename,group,loop,root_motion,tags,orig_path\<newline>'' @ ?second"
  have x: "\<not> utf8_continuation (CHR ''x'')"
    by (simp add: utf8_continuation_def less_eq_char_def)
  have nocr: "CHR 0x0D \<notin> set ?text" by auto
  have u: "universal_newlines ?text = ?text"
    using universal_newlines_no_cr [OF nocr, of "[]"] by simp
  have hdr: "''filename,group,loop,root_motion,tags,orig_path\<newline>''
             = join_with CHR 0x2C (map join_append ?names) @ [CHR 0x0A]"
    by code_simp
  have cells: "\<forall>f\<in>set ?names. CHR 0x0D \<notin> set f \<and> str_len f \<le> 131072"
    using header_cells by fastforce
  have t: "?text = join_with CHR 0x2C (map join_append ?names) @ CHR 0x0A # ?second"
    by (simp only: hdr append_assoc append_Cons append_Nil)
  have rr: "reader_iter 131072
           \<lparr>reader_fields = [], reader_state = START_RECORD, reader_field = [],
            reader_field_len = 0\<rparr>
           (text_lines (join_with CHR 0x2C (map join_append ?names) @ CHR 0x0A # ?second))
         = (case reader_iter 131072 parse_reset (text_lines ?second) of
              (records, raised) \<Rightarrow> (([] @ ?names) # records, raised))"
  proof (rule record_run)
    show "?names \<noteq> []" by simp
    show "\<forall>f\<in>set ?names. CHR 0x0D \<notin> set f \<and> str_len f \<le> 131072" by (rule cells)
    show "START_RECORD = START_RECORD \<or> START_RECORD = START_FIELD" by simp
    show "START_RECORD = START_RECORD \<longrightarrow> join_with CHR 0x2C (map join_append ?names) \<noteq> []"
      by simp
  qed
  have first: "reader_iter 131072 parse_reset (text_lines ?text)
        = (case reader_iter 131072 parse_reset (text_lines ?second) of
             (records, raised) \<Rightarrow> (?names # records, raised))"
    unfolding t using rr by (simp only: parse_reset_def append_Nil)
  have r: "replicate 131073 (CHR ''x'') = CHR ''x'' # replicate 131072 (CHR ''x'')"
  proof -
    have "(131073::nat) = Suc 131072" by simp
    then show ?thesis by (simp only: replicate_Suc)
  qed
  have s1: "str_len [CHR ''x''] \<le> 131072"
    using str_len_replicate [OF x, of 1] by simp
  have over: "131072 < str_len ([CHR ''x''] @ replicate 131072 (CHR ''x''))"
    using str_len_replicate [OF x, of 131073] r by simp
  have "reader_iter 131072 parse_reset (text_lines ?second)
        = reader_iter 131072
            \<lparr>reader_fields = [], reader_state = IN_FIELD, reader_field = [CHR ''x''],
             reader_field_len = str_len [CHR ''x'']\<rparr>
            (text_lines (replicate 131072 (CHR ''x'') @ ?tail))"
    unfolding r parse_reset_def
    using start_plain [of START_RECORD "CHR ''x''" 131072 "[]"] s1
    by (simp add: peel_char del: text_lines.simps reader_iter.simps)
  also have "\<dots> = ([], Some csv_Error)"
    using s1 over by (intro plain_overflow) simp_all
  finally have second: "reader_iter 131072 parse_reset (text_lines ?second)
                        = ([], Some csv_Error)" .
  have "csv_reader 131072 (open_r ?text) = ([?names], Some csv_Error)"
    unfolding csv_reader_def open_r_def u first second by simp
  then show ?thesis
    by (simp add: load_metadata_list_def DictReader_def Let_def)
qed

text \<open>
  Two files that \<^verbatim>\<open>load_metadata_list\<close> parses no row of. The header of the first has no
  column \<^verbatim>\<open>root_motion\<close>: the first row raises \<^verbatim>\<open>KeyError\<close>. The second has a cell of 131073
  characters, one more than the field size limit: the reader raises \<^verbatim>\<open>csv.Error\<close>. No
  list is returned.
\<close>

theorem load_metadata_list_raises:
  "load_metadata_list 131072
     ''filename,group,loop,tags,orig_path\<newline>A_Walk.fbx,Walk,TRUE,,Walk/A_Walk.fbx\<newline>''
     False
   = Inl (KeyError ''root_motion'')
   \<and> load_metadata_list 131072
     (''filename,group,loop,root_motion,tags,orig_path\<newline>''
      @ replicate 131073 (CHR ''x'') @ '',Walk,TRUE,FALSE,,Walk/x.fbx\<newline>'') False
   = Inl csv_Error"
proof
  show "load_metadata_list 131072
     ''filename,group,loop,tags,orig_path\<newline>A_Walk.fbx,Walk,TRUE,,Walk/A_Walk.fbx\<newline>''
     False
   = Inl (KeyError ''root_motion'')"
    by code_simp
  show "load_metadata_list 131072
     (''filename,group,loop,root_motion,tags,orig_path\<newline>''
      @ replicate 131073 (CHR ''x'') @ '',Walk,TRUE,FALSE,,Walk/x.fbx\<newline>'') False
   = Inl csv_Error"
    by (rule load_field_over_limit)
qed

text \<open>
  C4, amended. For an organizer that holds a metadata list,
  \<^verbatim>\<open>try_find_anim_metadata_for_entry\<close> returns the first row whose \<open>filename\<close> is the
  entry's \<open>base_name\<close>, character for character, and \<open>None\<close> exactly when no row has it.
  For a file that the \<^verbatim>\<open>csv\<close> reader reads to its end without an exception and whose header
  has the six columns, \<^verbatim>\<open>load_metadata_list\<close> returns one row for each record after the
  header that is not empty, in order, with \<open>loop\<close> and \<open>root_motion\<close> true exactly when
  the cell of that column is the text \<^verbatim>\<open>TRUE\<close>, and with the other four fields as the record
  has them (\<^verbatim>\<open>None\<close> where the record is too short), without the rows whose
  \<open>root_motion\<close> is true when \<open>ignore_root_motion\<close> is: then no returned row has
  \<open>root_motion\<close> set.
\<close>

theorem metadata_matching_and_loading:
  assumes "anim_metadata_list self = Some metadata_list"
    and "csv_reader field_limit (open_r csv_file) = (fieldnames # records, None)"
    and "set [''filename'', ''group'', ''loop'', ''root_motion'', ''tags'', ''orig_path'']
           \<subseteq> set fieldnames"
  shows "(\<exists>found.
            try_find_anim_metadata_for_entry self anim_entry = Inr found
            \<and> (found = None \<longleftrightarrow> (\<forall>m\<in>set metadata_list. filename m \<noteq> base_name anim_entry))
            \<and> (\<forall>m. found = Some m \<longleftrightarrow>
                   (\<exists>pre post. metadata_list = pre @ m # post
                       \<and> filename m = base_name anim_entry
                       \<and> (\<forall>x\<in>set pre. filename x \<noteq> base_name anim_entry))))
       \<and> (\<exists>loaded.
            load_metadata_list field_limit csv_file ignore_root_motion = Inr loaded
            \<and> loaded =
                filter (\<lambda>m. \<not> ignore_root_motion \<or> \<not> loaded_root_motion m)
                  (map (\<lambda>row. \<lparr>loaded_filename = the (row ''filename''),
                                loaded_group = the (row ''group''),
                                loaded_loop = (row ''loop'' = Some (Some ''TRUE'')),
                                loaded_root_motion = (row ''root_motion'' = Some (Some ''TRUE'')),
                                loaded_tags = the (row ''tags''),
                                loaded_orig_path = the (row ''orig_path'')\<rparr>)
                     (map (dict_row fieldnames) (filter (\<lambda>row. row \<noteq> []) records)))
            \<and> (ignore_root_motion \<longrightarrow> (\<forall>m\<in>set loaded. \<not> loaded_root_motion m)))"
proof -
  let ?found = "find (\<lambda>m. filename m = base_name anim_entry) metadata_list"
  have t: "try_find_anim_metadata_for_entry self anim_entry = Inr ?found"
    using assms(1) by (simp add: try_find_anim_metadata_for_entry_def first_with_filename_find)
  have n: "?found = None \<longleftrightarrow> (\<forall>m\<in>set metadata_list. filename m \<noteq> base_name anim_entry)"
    by (auto simp: find_None_iff)
  have s: "?found = Some m \<longleftrightarrow>
             (\<exists>pre post. metadata_list = pre @ m # post \<and> filename m = base_name anim_entry
                 \<and> (\<forall>x\<in>set pre. filename x \<noteq> base_name anim_entry))" for m
    by (rule find_first_split)
  have first: "\<exists>found.
            try_find_anim_metadata_for_entry self anim_entry = Inr found
            \<and> (found = None \<longleftrightarrow> (\<forall>m\<in>set metadata_list. filename m \<noteq> base_name anim_entry))
            \<and> (\<forall>m. found = Some m \<longleftrightarrow>
                   (\<exists>pre post. metadata_list = pre @ m # post
                       \<and> filename m = base_name anim_entry
                       \<and> (\<forall>x\<in>set pre. filename x \<noteq> base_name anim_entry)))"
  proof (intro exI conjI allI)
    show "try_find_anim_metadata_for_entry self anim_entry = Inr ?found" by (rule t)
    show "?found = None \<longleftrightarrow> (\<forall>m\<in>set metadata_list. filename m \<noteq> base_name anim_entry)"
      by (rule n)
    show "?found = Some m \<longleftrightarrow>
             (\<exists>pre post. metadata_list = pre @ m # post \<and> filename m = base_name anim_entry
                 \<and> (\<forall>x\<in>set pre. filename x \<noteq> base_name anim_entry))" for m
      by (rule s)
  qed
  let ?loaded = "filter (\<lambda>m. \<not> ignore_root_motion \<or> \<not> loaded_root_motion m)
                  (map (\<lambda>row. \<lparr>loaded_filename = the (row ''filename''),
                                loaded_group = the (row ''group''),
                                loaded_loop = (row ''loop'' = Some (Some ''TRUE'')),
                                loaded_root_motion = (row ''root_motion'' = Some (Some ''TRUE'')),
                                loaded_tags = the (row ''tags''),
                                loaded_orig_path = the (row ''orig_path'')\<rparr>)
                     (map (dict_row fieldnames) (filter (\<lambda>row. row \<noteq> []) records)))"
  have l: "load_metadata_list field_limit csv_file ignore_root_motion = Inr ?loaded"
    using load_metadata_list_closed [OF assms(2) assms(3), of ignore_root_motion] by simp
  have second: "\<exists>loaded.
            load_metadata_list field_limit csv_file ignore_root_motion = Inr loaded
            \<and> loaded = ?loaded
            \<and> (ignore_root_motion \<longrightarrow> (\<forall>m\<in>set loaded. \<not> loaded_root_motion m))"
  proof (intro exI conjI impI)
    show "load_metadata_list field_limit csv_file ignore_root_motion = Inr ?loaded"
      by (rule l)
    show "?loaded = ?loaded" by (rule refl)
    show "\<forall>m\<in>set ?loaded. \<not> loaded_root_motion m" if "ignore_root_motion"
      using that by simp
  qed
  show ?thesis using first second by (rule conjI)
qed

text \<open>
  The file name is matched with its case, and the first of two rows wins. The file has
  a header that ends with \<^verbatim>\<open>\r\n\<close>, an empty line, and a last row without the cell of
  \<open>orig_path\<close>; of the cells \<^verbatim>\<open>TRUE\<close>, \<^verbatim>\<open>True\<close>, \<^verbatim>\<open>true\<close>, \<^verbatim>\<open>FALSE\<close> and \<^verbatim>\<open>TRUE\<close> after a blank,
  only the first is true.
\<close>

theorem metadata_matching_and_loading_witness:
  "try_find_anim_metadata_for_entry
     (set_anim_metadata_list AnimMetadataOrganizer_init
        [\<lparr>filename = ''A_Walk.fbx'', group = ''Walk'', loop = True, root_motion = False,
       tags = [], orig_path = ''Walk/A_Walk.fbx''\<rparr>,
      \<lparr>filename = ''a_walk.fbx'', group = ''Lower'', loop = False, root_motion = False,
       tags = [], orig_path = ''a_walk.fbx''\<rparr>,
      \<lparr>filename = ''a_walk.fbx'', group = ''Second'', loop = False, root_motion = False,
       tags = [], orig_path = ''a_walk.fbx''\<rparr>])
     \<lparr>full_path = ''/in/a_walk.fbx'', relative_path = ''a_walk.fbx'',
      base_name = ''a_walk.fbx'', entry_should_loop = True\<rparr>
   = Inr (Some \<lparr>filename = ''a_walk.fbx'', group = ''Lower'', loop = False, root_motion = False,
       tags = [], orig_path = ''a_walk.fbx''\<rparr>)
   \<and> load_metadata_list 131072
     (''filename,group,loop,root_motion,tags,orig_path'' @ [CHR 0x0D, CHR 0x0A]
      @ ''A_Walk.fbx,Walk,TRUE,FALSE,,Walk/A_Walk.fbx\<newline>''
      @ ''A_Run.fbx,Run,True,TRUE,,Run/A_Run.fbx\<newline>\<newline>''
      @ ''Character.fbx,Base, TRUE,true,tpose\<newline>'') True
     = Inr [\<lparr>loaded_filename = Some ''A_Walk.fbx'', loaded_group = Some ''Walk'',
             loaded_loop = True, loaded_root_motion = False,
             loaded_tags = Some [], loaded_orig_path = Some ''Walk/A_Walk.fbx''\<rparr>,
            \<lparr>loaded_filename = Some ''Character.fbx'', loaded_group = Some ''Base'',
             loaded_loop = False, loaded_root_motion = False,
             loaded_tags = Some ''tpose'', loaded_orig_path = None\<rparr>]
   \<and> load_metadata_list 131072
     (''filename,group,loop,root_motion,tags,orig_path'' @ [CHR 0x0D, CHR 0x0A]
      @ ''A_Walk.fbx,Walk,TRUE,FALSE,,Walk/A_Walk.fbx\<newline>''
      @ ''A_Run.fbx,Run,True,TRUE,,Run/A_Run.fbx\<newline>\<newline>''
      @ ''Character.fbx,Base, TRUE,true,tpose\<newline>'') False
     = Inr [\<lparr>loaded_filename = Some ''A_Walk.fbx'', loaded_group = Some ''Walk'',
             loaded_loop = True, loaded_root_motion = False,
             loaded_tags = Some [], loaded_orig_path = Some ''Walk/A_Walk.fbx''\<rparr>,
            \<lparr>loaded_filename = Some ''A_Run.fbx'', loaded_group = Some ''Run'',
             loaded_loop = False, loaded_root_motion = True,
             loaded_tags = Some [], loaded_orig_path = Some ''Run/A_Run.fbx''\<rparr>,
            \<lparr>loaded_filename = Some ''Character.fbx'', loaded_group = Some ''Base'',
             loaded_loop = False, loaded_root_motion = False,
             loaded_tags = Some ''tpose'', loaded_orig_path = None\<rparr>]"
proof -
  let ?ms = "[\<lparr>filename = ''A_Walk.fbx'', group = ''Walk'', loop = True, root_motion = False,
       tags = [], orig_path = ''Walk/A_Walk.fbx''\<rparr>,
      \<lparr>filename = ''a_walk.fbx'', group = ''Lower'', loop = False, root_motion = False,
       tags = [], orig_path = ''a_walk.fbx''\<rparr>,
      \<lparr>filename = ''a_walk.fbx'', group = ''Second'', loop = False, root_motion = False,
       tags = [], orig_path = ''a_walk.fbx''\<rparr>]"
  let ?e = "\<lparr>full_path = ''/in/a_walk.fbx'', relative_path = ''a_walk.fbx'',
      base_name = ''a_walk.fbx'', entry_should_loop = True\<rparr>"
  let ?text = "''filename,group,loop,root_motion,tags,orig_path'' @ [CHR 0x0D, CHR 0x0A]
      @ ''A_Walk.fbx,Walk,TRUE,FALSE,,Walk/A_Walk.fbx\<newline>''
      @ ''A_Run.fbx,Run,True,TRUE,,Run/A_Run.fbx\<newline>\<newline>''
      @ ''Character.fbx,Base, TRUE,true,tpose\<newline>''"
  have h1: "anim_metadata_list (set_anim_metadata_list AnimMetadataOrganizer_init ?ms) = Some ?ms"
    by (rule set_anim_metadata_list_init(1))
  have h2: "csv_reader 131072 (open_r ?text) =
     ([''filename'', ''group'', ''loop'', ''root_motion'', ''tags'', ''orig_path'']
      # [[''A_Walk.fbx'', ''Walk'', ''TRUE'', ''FALSE'', [], ''Walk/A_Walk.fbx''],
         [''A_Run.fbx'', ''Run'', ''True'', ''TRUE'', [], ''Run/A_Run.fbx''],
         [],
         [''Character.fbx'', ''Base'', '' TRUE'', ''true'', ''tpose'']], None)"
    by code_simp
  have h3: "set [''filename'', ''group'', ''loop'', ''root_motion'', ''tags'', ''orig_path'']
     \<subseteq> set [''filename'', ''group'', ''loop'', ''root_motion'', ''tags'', ''orig_path'']"
    by (rule subset_refl)
  have ev1: "try_find_anim_metadata_for_entry
               (set_anim_metadata_list AnimMetadataOrganizer_init ?ms) ?e
             = Inr (Some \<lparr>filename = ''a_walk.fbx'', group = ''Lower'', loop = False, root_motion = False,
       tags = [], orig_path = ''a_walk.fbx''\<rparr>)"
    by code_simp
  have ev2: "load_metadata_list 131072 ?text True
     = Inr [\<lparr>loaded_filename = Some ''A_Walk.fbx'', loaded_group = Some ''Walk'',
             loaded_loop = True, loaded_root_motion = False,
             loaded_tags = Some [], loaded_orig_path = Some ''Walk/A_Walk.fbx''\<rparr>,
            \<lparr>loaded_filename = Some ''Character.fbx'', loaded_group = Some ''Base'',
             loaded_loop = False, loaded_root_motion = False,
             loaded_tags = Some ''tpose'', loaded_orig_path = None\<rparr>]"
    by code_simp
  have ev3: "load_metadata_list 131072 ?text False
     = Inr [\<lparr>loaded_filename = Some ''A_Walk.fbx'', loaded_group = Some ''Walk'',
             loaded_loop = True, loaded_root_motion = False,
             loaded_tags = Some [], loaded_orig_path = Some ''Walk/A_Walk.fbx''\<rparr>,
            \<lparr>loaded_filename = Some ''A_Run.fbx'', loaded_group = Some ''Run'',
             loaded_loop = False, loaded_root_motion = True,
             loaded_tags = Some [], loaded_orig_path = Some ''Run/A_Run.fbx''\<rparr>,
            \<lparr>loaded_filename = Some ''Character.fbx'', loaded_group = Some ''Base'',
             loaded_loop = False, loaded_root_motion = False,
             loaded_tags = Some ''tpose'', loaded_orig_path = None\<rparr>]"
    by code_simp
  show ?thesis
    using metadata_matching_and_loading [OF h1 h2 h3, of ?e True]
    by (simp only: ev1 ev2 ev3)
qed

section \<open>Saving and loading the metadata: facts\<close>

lemma dict_to_list_asdict:
  "dict_to_list [''filename'', ''group'', ''loop'', ''root_motion'', ''tags'', ''orig_path'']
     (asdict entry)
   = Inr [Str (filename entry), Str (group entry), Bool (loop entry), Bool (root_motion entry),
          Str (tags entry), Str (orig_path entry)]"
  by (simp add: dict_to_list_def asdict_def)

lemma save_rows_closed:
  assumes "\<forall>entry\<in>set entry_list.
     can_encode (csv_writerow
       [filename entry, group entry, str_of (Bool (loop entry)),
        str_of (Bool (root_motion entry)), tags entry, orig_path entry])"
  shows "save_rows can_encode
           [''filename'', ''group'', ''loop'', ''root_motion'', ''tags'', ''orig_path'']
           entry_list out_file
         = Inr (out_file @ concat (map (\<lambda>entry. csv_writerow
             [filename entry, group entry, str_of (Bool (loop entry)),
              str_of (Bool (root_motion entry)), tags entry, orig_path entry]) entry_list))"
  using assms
  by (induction entry_list arbitrary: out_file)
     (simp_all add: DictWriter_writerow_def dict_to_list_asdict file_write_def)

text \<open>
  \<^verbatim>\<open>save_metadata_list\<close> writes the line of the field names and a line for each entry,
  when the encoding has them.
\<close>

lemma save_metadata_list_closed:
  assumes "\<forall>line\<in>set (map csv_writerow
              ([''filename'', ''group'', ''loop'', ''root_motion'', ''tags'', ''orig_path'']
               # map (\<lambda>entry. [filename entry, group entry, str_of (Bool (loop entry)),
                                  str_of (Bool (root_motion entry)), tags entry, orig_path entry])
                   entry_list)). can_encode line"
  shows "save_metadata_list can_encode entry_list
         = Inr (concat (map csv_writerow
              ([''filename'', ''group'', ''loop'', ''root_motion'', ''tags'', ''orig_path'']
               # map (\<lambda>entry. [filename entry, group entry, str_of (Bool (loop entry)),
                                  str_of (Bool (root_motion entry)), tags entry, orig_path entry])
                   entry_list)))"
proof -
  have h: "can_encode (csv_writerow
             [''filename'', ''group'', ''loop'', ''root_motion'', ''tags'', ''orig_path''])"
    using assms by simp
  have r: "\<forall>entry\<in>set entry_list.
     can_encode (csv_writerow
       [filename entry, group entry, str_of (Bool (loop entry)),
        str_of (Bool (root_motion entry)), tags entry, orig_path entry])"
    using assms by simp
  have d: "dict_to_list [''filename'', ''group'', ''loop'', ''root_motion'', ''tags'', ''orig_path'']
             (zip [''filename'', ''group'', ''loop'', ''root_motion'', ''tags'', ''orig_path'']
                (map Str [''filename'', ''group'', ''loop'', ''root_motion'', ''tags'', ''orig_path'']))
           = Inr (map Str [''filename'', ''group'', ''loop'', ''root_motion'', ''tags'', ''orig_path''])"
    by (simp add: dict_to_list_def)
  have w: "DictWriter_writeheader can_encode
             [''filename'', ''group'', ''loop'', ''root_motion'', ''tags'', ''orig_path''] []
           = Inr (csv_writerow
                    [''filename'', ''group'', ''loop'', ''root_motion'', ''tags'', ''orig_path''])"
    unfolding DictWriter_writeheader_def DictWriter_writerow_def Let_def d
    using h by (simp add: file_write_def)
  show ?thesis
    unfolding save_metadata_list_def Let_def w
    by (simp add: save_rows_closed [OF r] o_def)
qed

lemma str_of_Bool: "str_of (Bool b) \<noteq> ''TRUE''" "CHR 0x0D \<notin> set (str_of (Bool b))"
  "str_len (str_of (Bool b)) \<le> 5"
  by (cases b; simp add: str_len_def utf8_continuation_def less_eq_char_def)+

text \<open>
  A file name with a lone surrogate, which UTF-8 does not have: \<^verbatim>\<open>save_metadata_list\<close>
  raises \<^verbatim>\<open>UnicodeEncodeError\<close>, and there is no list to load.
\<close>

theorem save_lone_surrogate:
  "save_metadata_list utf8_can_encode
     [\<lparr>filename = ''A_'' @ [CHR 0xED, CHR 0xA0, CHR 0x80] @ ''.fbx'', group = ''Walk'',
       loop = True, root_motion = False, tags = [], orig_path = ''Walk/A.fbx''\<rparr>]
   = Inl UnicodeEncodeError"
  by code_simp

text \<open>
  A carriage return in a file name. \<^verbatim>\<open>save_metadata_list\<close> opens the file with
  \<^verbatim>\<open>newline=''\<close>, as the \<^verbatim>\<open>csv\<close> module asks for, and writes the carriage return in a quoted
  cell; \<^verbatim>\<open>load_metadata_list\<close> opens the file without \<^verbatim>\<open>newline=''\<close> and reads a line feed
  in its place.
\<close>

lemma save_load_carriage_return:
  "save_metadata_list utf8_can_encode
     [\<lparr>filename = ''A_Walk'' @ [CHR 0x0D] @ ''.fbx'', group = ''Walk'', loop = True,
       root_motion = False, tags = [], orig_path = ''Walk/A_Walk.fbx''\<rparr>]
   = Inr (''filename,group,loop,root_motion,tags,orig_path'' @ [CHR 0x0D, CHR 0x0A]
          @ [CHR 0x22] @ ''A_Walk'' @ [CHR 0x0D] @ ''.fbx'' @ [CHR 0x22]
          @ '',Walk,True,False,,Walk/A_Walk.fbx'' @ [CHR 0x0D, CHR 0x0A])
   \<and> load_metadata_list 131072
     (''filename,group,loop,root_motion,tags,orig_path'' @ [CHR 0x0D, CHR 0x0A]
          @ [CHR 0x22] @ ''A_Walk'' @ [CHR 0x0D] @ ''.fbx'' @ [CHR 0x22]
          @ '',Walk,True,False,,Walk/A_Walk.fbx'' @ [CHR 0x0D, CHR 0x0A]) False
   = Inr [\<lparr>loaded_filename = Some (''A_Walk'' @ [CHR 0x0A] @ ''.fbx''),
           loaded_group = Some ''Walk'', loaded_loop = False, loaded_root_motion = False,
           loaded_tags = Some [], loaded_orig_path = Some ''Walk/A_Walk.fbx''\<rparr>]
   \<and> ''A_Walk'' @ [CHR 0x0A] @ ''.fbx'' \<noteq> ''A_Walk'' @ [CHR 0x0D] @ ''.fbx''"
proof -
  have s: "save_metadata_list utf8_can_encode
     [\<lparr>filename = ''A_Walk'' @ [CHR 0x0D] @ ''.fbx'', group = ''Walk'', loop = True,
       root_motion = False, tags = [], orig_path = ''Walk/A_Walk.fbx''\<rparr>]
   = Inr (''filename,group,loop,root_motion,tags,orig_path'' @ [CHR 0x0D, CHR 0x0A]
          @ [CHR 0x22] @ ''A_Walk'' @ [CHR 0x0D] @ ''.fbx'' @ [CHR 0x22]
          @ '',Walk,True,False,,Walk/A_Walk.fbx'' @ [CHR 0x0D, CHR 0x0A])"
    by code_simp
  have l: "load_metadata_list 131072
     (''filename,group,loop,root_motion,tags,orig_path'' @ [CHR 0x0D, CHR 0x0A]
          @ [CHR 0x22] @ ''A_Walk'' @ [CHR 0x0D] @ ''.fbx'' @ [CHR 0x22]
          @ '',Walk,True,False,,Walk/A_Walk.fbx'' @ [CHR 0x0D, CHR 0x0A]) False
   = Inr [\<lparr>loaded_filename = Some (''A_Walk'' @ [CHR 0x0A] @ ''.fbx''),
           loaded_group = Some ''Walk'', loaded_loop = False, loaded_root_motion = False,
           loaded_tags = Some [], loaded_orig_path = Some ''Walk/A_Walk.fbx''\<rparr>]"
    by code_simp
  have d: "''A_Walk'' @ [CHR 0x0A] @ ''.fbx'' \<noteq> ''A_Walk'' @ [CHR 0x0D] @ ''.fbx''"
    by simp
  show ?thesis
    using s l d by (intro conjI)
qed

text \<open>
  C9, amended. For every metadata list whose \<open>filename\<close>, \<open>group\<close>, \<open>tags\<close> and
  \<open>orig_path\<close> hold no carriage return and no more characters than the field size limit
  of the \<^verbatim>\<open>csv\<close> module (which is at least 11, the length of the longest column name), and
  whose lines the encoding of the platform has: \<^verbatim>\<open>save_metadata_list\<close> writes a file that
  \<^verbatim>\<open>load_metadata_list\<close>, with \<open>ignore_root_motion\<close> false, reads back as a list of the
  same length whose entries have the saved \<open>filename\<close>, \<open>group\<close>, \<open>tags\<close> and
  \<open>orig_path\<close>, and \<open>loop\<close> and \<open>root_motion\<close> false: the booleans are written as
  \<^verbatim>\<open>True\<close> and \<^verbatim>\<open>False\<close>, and only \<^verbatim>\<open>TRUE\<close> is read as true.
\<close>

theorem save_load_round_trip:
  assumes "11 \<le> field_limit"
    and "\<forall>entry\<in>set entry_list. \<forall>s\<in>{filename entry, group entry, tags entry, orig_path entry}.
           CHR 0x0D \<notin> set s \<and> str_len s \<le> field_limit"
    and "\<forall>line\<in>set (map csv_writerow
              ([''filename'', ''group'', ''loop'', ''root_motion'', ''tags'', ''orig_path'']
               # map (\<lambda>entry. [filename entry, group entry, str_of (Bool (loop entry)),
                                  str_of (Bool (root_motion entry)), tags entry, orig_path entry])
                   entry_list)). can_encode line"
  shows "\<exists>csv_file loaded.
     save_metadata_list can_encode entry_list = Inr csv_file
     \<and> load_metadata_list field_limit csv_file False = Inr loaded
     \<and> length loaded = length entry_list
     \<and> loaded = map (\<lambda>entry.
           \<lparr>loaded_filename = Some (filename entry), loaded_group = Some (group entry),
            loaded_loop = False, loaded_root_motion = False,
            loaded_tags = Some (tags entry), loaded_orig_path = Some (orig_path entry)\<rparr>)
         entry_list"
proof -
  let ?names = "[''filename'', ''group'', ''loop'', ''root_motion'', ''tags'', ''orig_path'']"
  let ?cells = "\<lambda>entry. [filename entry, group entry, str_of (Bool (loop entry)),
                         str_of (Bool (root_motion entry)), tags entry, orig_path entry]"
  let ?file = "concat (map csv_writerow (?names # map ?cells entry_list))"
  have s: "save_metadata_list can_encode entry_list = Inr ?file"
    by (rule save_metadata_list_closed [OF assms(3)])
  have ok: "\<forall>row\<in>set (?names # map ?cells entry_list). 2 \<le> length row
             \<and> (\<forall>f\<in>set row. CHR 0x0D \<notin> set f \<and> str_len f \<le> field_limit)"
  proof
    fix row assume "row \<in> set (?names # map ?cells entry_list)"
    then consider "row = ?names" | entry where "entry \<in> set entry_list" "row = ?cells entry"
      by auto
    then show "2 \<le> length row
             \<and> (\<forall>f\<in>set row. CHR 0x0D \<notin> set f \<and> str_len f \<le> field_limit)"
    proof cases
      case 1
      then show ?thesis using header_cells assms(1) by fastforce
    next
      case 2
      have b: "str_len (str_of (Bool b)) \<le> field_limit" for b
        using str_of_Bool(3) [of b] assms(1) by simp
      show ?thesis using 2 assms(2) b str_of_Bool(2) by auto
    qed
  qed
  have r: "csv_reader field_limit (open_r ?file) = (?names # map ?cells entry_list, None)"
    by (rule csv_reader_writerow [OF ok])
  have sub: "set ?names \<subseteq> set ?names" by (rule subset_refl)
  have row: "(\<lambda>row. \<lparr>loaded_filename = the (row ''filename''),
                          loaded_group = the (row ''group''),
                          loaded_loop = (row ''loop'' = Some (Some ''TRUE'')),
                          loaded_root_motion = (row ''root_motion'' = Some (Some ''TRUE'')),
                          loaded_tags = the (row ''tags''),
                          loaded_orig_path = the (row ''orig_path'')\<rparr>)
               (dict_row ?names (?cells entry))
             = \<lparr>loaded_filename = Some (filename entry), loaded_group = Some (group entry),
            loaded_loop = False, loaded_root_motion = False,
            loaded_tags = Some (tags entry), loaded_orig_path = Some (orig_path entry)\<rparr>" for entry
    by (simp add: str_of_Bool(1))
  have l: "load_metadata_list field_limit ?file False
           = Inr (map (\<lambda>entry.
           \<lparr>loaded_filename = Some (filename entry), loaded_group = Some (group entry),
            loaded_loop = False, loaded_root_motion = False,
            loaded_tags = Some (tags entry), loaded_orig_path = Some (orig_path entry)\<rparr>)
         entry_list)"
    unfolding load_metadata_list_closed [OF r sub]
    by (simp add: filter_map o_def str_of_Bool(1))
  show ?thesis
    using s l by simp
qed

text \<open>
  Two entries with every combination the booleans are saved in, a comma, quotes and a
  line feed inside cells, and an empty cell at the end of a line; the file is written
  out.
\<close>

theorem save_load_round_trip_witness:
  "save_metadata_list utf8_can_encode
     [\<lparr>filename = ''A_Walk.fbx'', group = ''Walk, fast'', loop = True, root_motion = False,
       tags = ''say '' @ [CHR 0x22] @ ''hi'' @ [CHR 0x22], orig_path = ''Walk/A_Walk.fbx''\<rparr>,
      \<lparr>filename = ''A_Run.fbx'', group = ''Run'', loop = False, root_motion = True,
       tags = ''two\<newline>lines'', orig_path = []\<rparr>]
   = Inr (''filename,group,loop,root_motion,tags,orig_path'' @ [CHR 0x0D, CHR 0x0A]
          @ ''A_Walk.fbx,'' @ [CHR 0x22] @ ''Walk, fast'' @ [CHR 0x22] @ '',True,False,''
          @ [CHR 0x22] @ ''say '' @ [CHR 0x22, CHR 0x22] @ ''hi'' @ [CHR 0x22, CHR 0x22, CHR 0x22]
          @ '',Walk/A_Walk.fbx'' @ [CHR 0x0D, CHR 0x0A]
          @ ''A_Run.fbx,Run,False,True,'' @ [CHR 0x22] @ ''two\<newline>lines'' @ [CHR 0x22] @ '',''
          @ [CHR 0x0D, CHR 0x0A])
   \<and> load_metadata_list 131072
         (''filename,group,loop,root_motion,tags,orig_path'' @ [CHR 0x0D, CHR 0x0A]
          @ ''A_Walk.fbx,'' @ [CHR 0x22] @ ''Walk, fast'' @ [CHR 0x22] @ '',True,False,''
          @ [CHR 0x22] @ ''say '' @ [CHR 0x22, CHR 0x22] @ ''hi'' @ [CHR 0x22, CHR 0x22, CHR 0x22]
          @ '',Walk/A_Walk.fbx'' @ [CHR 0x0D, CHR 0x0A]
          @ ''A_Run.fbx,Run,False,True,'' @ [CHR 0x22] @ ''two\<newline>lines'' @ [CHR 0x22] @ '',''
          @ [CHR 0x0D, CHR 0x0A]) False
     = Inr [\<lparr>loaded_filename = Some ''A_Walk.fbx'', loaded_group = Some ''Walk, fast'',
             loaded_loop = False, loaded_root_motion = False,
             loaded_tags = Some (''say '' @ [CHR 0x22] @ ''hi'' @ [CHR 0x22]),
             loaded_orig_path = Some ''Walk/A_Walk.fbx''\<rparr>,
            \<lparr>loaded_filename = Some ''A_Run.fbx'', loaded_group = Some ''Run'',
             loaded_loop = False, loaded_root_motion = False,
             loaded_tags = Some ''two\<newline>lines'', loaded_orig_path = Some []\<rparr>]"
proof -
  let ?l = "[\<lparr>filename = ''A_Walk.fbx'', group = ''Walk, fast'', loop = True, root_motion = False,
       tags = ''say '' @ [CHR 0x22] @ ''hi'' @ [CHR 0x22], orig_path = ''Walk/A_Walk.fbx''\<rparr>,
      \<lparr>filename = ''A_Run.fbx'', group = ''Run'', loop = False, root_motion = True,
       tags = ''two\<newline>lines'', orig_path = []\<rparr>]"
  let ?text = "''filename,group,loop,root_motion,tags,orig_path'' @ [CHR 0x0D, CHR 0x0A]
          @ ''A_Walk.fbx,'' @ [CHR 0x22] @ ''Walk, fast'' @ [CHR 0x22] @ '',True,False,''
          @ [CHR 0x22] @ ''say '' @ [CHR 0x22, CHR 0x22] @ ''hi'' @ [CHR 0x22, CHR 0x22, CHR 0x22]
          @ '',Walk/A_Walk.fbx'' @ [CHR 0x0D, CHR 0x0A]
          @ ''A_Run.fbx,Run,False,True,'' @ [CHR 0x22] @ ''two\<newline>lines'' @ [CHR 0x22] @ '',''
          @ [CHR 0x0D, CHR 0x0A]"
  have h1: "(11::int) \<le> 131072" by simp
  have h2: "\<forall>entry\<in>set ?l. \<forall>s\<in>{filename entry, group entry, tags entry, orig_path entry}.
           CHR 0x0D \<notin> set s \<and> str_len s \<le> 131072"
    by code_simp
  have h3: "\<forall>line\<in>set (map csv_writerow
              ([''filename'', ''group'', ''loop'', ''root_motion'', ''tags'', ''orig_path'']
               # map (\<lambda>entry. [filename entry, group entry, str_of (Bool (loop entry)),
                                  str_of (Bool (root_motion entry)), tags entry, orig_path entry])
                   ?l)). utf8_can_encode line"
    by code_simp
  have ev1: "save_metadata_list utf8_can_encode ?l = Inr ?text"
    by code_simp
  have ev2: "load_metadata_list 131072 ?text False
     = Inr [\<lparr>loaded_filename = Some ''A_Walk.fbx'', loaded_group = Some ''Walk, fast'',
             loaded_loop = False, loaded_root_motion = False,
             loaded_tags = Some (''say '' @ [CHR 0x22] @ ''hi'' @ [CHR 0x22]),
             loaded_orig_path = Some ''Walk/A_Walk.fbx''\<rparr>,
            \<lparr>loaded_filename = Some ''A_Run.fbx'', loaded_group = Some ''Run'',
             loaded_loop = False, loaded_root_motion = False,
             loaded_tags = Some ''two\<newline>lines'', loaded_orig_path = Some []\<rparr>]"
    by code_simp
  show ?thesis
    using save_load_round_trip [OF h1 h2 h3]
    by (simp only: ev1 ev2)
qed

section \<open>\<^verbatim>\<open>os.path\<close> on a POSIX platform: facts\<close>

lemma rfind_absent: "c \<notin> set s \<Longrightarrow> rfind s c = - 1"
proof -
  assume a: "c \<notin> set s"
  have "filter (\<lambda>i. s ! i = c) (rev [0..<length s]) = []"
    using a by (auto simp: filter_empty_conv)
  then show ?thesis by (simp add: rfind_def)
qed

lemma rfind_last:
  assumes "c \<notin> set ys"
  shows "rfind (xs @ c # ys) c = int (length xs)"
proof -
  let ?s = "xs @ c # ys"
  let ?n = "Suc (length xs + length ys)"
  have len: "length ?s = ?n" by simp
  have "[0..<?n] = [0..<length xs] @ [length xs..<?n]"
    using upt_add_eq_append [of 0 "length xs" "Suc (length ys)"] by simp
  moreover have "[length xs..<?n] = length xs # [Suc (length xs)..<?n]"
    by (rule upt_conv_Cons) simp
  ultimately have split: "[0..<?n] = [0..<length xs] @ length xs # [Suc (length xs)..<?n]"
    by simp
  have ne: "?s ! i \<noteq> c" if "Suc (length xs) \<le> i" "i < ?n" for i
  proof -
    define k where "k = i - Suc (length xs)"
    have k: "i = Suc (length xs) + k" "k < length ys"
      using that by (simp_all add: k_def)
    have "?s ! i = ys ! k" unfolding k(1) by (simp add: nth_append)
    moreover have "ys ! k \<in> set ys" using k(2) by (rule nth_mem)
    ultimately show ?thesis using assms by auto
  qed
  have "\<not> (?s ! i = c)" if "i \<in> set (rev [Suc (length xs)..<?n])" for i
  proof -
    from that have "Suc (length xs) \<le> i" "i < ?n"
      by (simp_all only: set_rev set_upt atLeastLessThan_iff)
    then show ?thesis by (rule ne)
  qed
  then have tail: "filter (\<lambda>i. ?s ! i = c) (rev [Suc (length xs)..<?n]) = []"
    by (simp only: filter_empty_conv) blast
  have "filter (\<lambda>i. ?s ! i = c) (rev [0..<?n])
     = length xs # filter (\<lambda>i. ?s ! i = c) (rev [0..<length xs])"
    by (simp only: split rev_append rev.simps filter_append tail append_Nil filter.simps
          nth_append_length simp_thms if_True append_Cons append_assoc)
  then show ?thesis
    by (simp only: rfind_def len list.case)
qed

text \<open>
  On a POSIX platform the base name the crawler stores is the name \<^verbatim>\<open>os.listdir\<close>
  returned, which holds no separator.
\<close>

lemma posixpath_basename_join:
  assumes "CHR ''/'' \<notin> set name"
  shows "posixpath_basename (posixpath_join folder name) = name"
proof -
  have n1: "nat (int k + 1) = Suc k" for k by simp
  have ns: "\<not> startswith name ''/''"
    using assms by (cases name) (auto simp: startswith_def)
  consider (empty) "folder = []" | (slash) "folder \<noteq> []" "endswith folder ''/''"
    | (plain) "folder \<noteq> []" "\<not> endswith folder ''/''"
    by blast
  then show ?thesis
  proof cases
    case empty
    then show ?thesis
      using ns assms by (simp add: posixpath_join_def posixpath_basename_def rfind_absent)
  next
    case slash
    then obtain pre where pre: "folder = pre @ ''/''"
      by (auto simp: endswith_suffix suffix_def)
    have "posixpath_join folder name = pre @ CHR ''/'' # name"
      using ns slash pre by (simp add: posixpath_join_def)
    then show ?thesis
      using rfind_last [OF assms, of pre] by (simp add: posixpath_basename_def n1)
  next
    case plain
    have "posixpath_join folder name = folder @ CHR ''/'' # name"
      using ns plain by (simp add: posixpath_join_def)
    then show ?thesis
      using rfind_last [OF assms, of folder] by (simp add: posixpath_basename_def n1)
  qed
qed

end
